theory Spec2Isabelle
  imports Complex_Main
begin

section \<open>Dates and clock strings\<close>

text \<open>
  A JavaScript \<open>Date\<close> is modelled as its time value: the milliseconds of an instant since
  the epoch, in UTC. \<open>None\<close> stands for an Invalid Date (time value NaN) and, for numbers,
  for NaN.
\<close>

type_synonym date = int

definition msPerMinute :: int where
  "msPerMinute = 60000"

definition msPerHour :: int where
  "msPerHour = 3600000"

definition msPerDay :: int where
  "msPerDay = 86400000"

text \<open>
  \<open>setHours\<close>, \<open>getDate\<close> and \<open>setDate\<close> work on local time, so the time zone of the
  browser is part of the environment. It is given by the two conversions of the language
  specification: \<open>LocalTime\<close> takes an instant to the local wall-clock value (the
  milliseconds a clock of the zone shows, counted from its 1 January 1970 00:00), and \<open>UTC\<close>
  takes a wall-clock value back to an instant.
\<close>

record timeZone =
  LocalTime :: "int \<Rightarrow> int"
  UTC :: "int \<Rightarrow> int"

text \<open>A zone whose clocks are always \<open>off\<close> milliseconds ahead of UTC.\<close>

definition fixedZone :: "int \<Rightarrow> timeZone" where
  "fixedZone off = \<lparr>LocalTime = (\<lambda>t. t + off), UTC = (\<lambda>l. l - off)\<rparr>"

text \<open>A zone that changes its offset once, at the instant \<open>T\<close>, from \<open>before\<close> to
  \<open>after\<close> (a daylight-saving change). A wall-clock value that the change skips or repeats
  is read with the offset in force before the change, as the language specification says.\<close>

definition changingZone :: "int \<Rightarrow> int \<Rightarrow> int \<Rightarrow> timeZone" where
  "changingZone T before after =
     \<lparr>LocalTime = (\<lambda>t. t + (if t < T then before else after)),
      UTC = (\<lambda>l. if l - before < T \<or> l - after < T then l - before else l - after)\<rparr>"

text \<open>\<open>d.setHours(h, m)\<close>: hours and minutes of the local time are replaced, the local
  day, the seconds and the milliseconds of \<open>d\<close> are kept; a NaN argument makes the date
  invalid.\<close>

definition setHours :: "timeZone \<Rightarrow> date option \<Rightarrow> int option \<Rightarrow> int option \<Rightarrow> date option" where
  "setHours z d h m =
     (case (d, h, m) of
        (Some t, Some hh, Some mm) \<Rightarrow>
          (let l = LocalTime z t
           in Some (UTC z ((l div msPerDay) * msPerDay + hh * msPerHour + mm * msPerMinute
                           + l mod msPerMinute)))
      | _ \<Rightarrow> None)"

text \<open>\<open>d.setDate(d.getDate() + 1)\<close>: the same wall-clock time on the next local day.\<close>

definition addOneDay :: "timeZone \<Rightarrow> date option \<Rightarrow> date option" where
  "addOneDay z d = map_option (\<lambda>t. UTC z (LocalTime z t + msPerDay)) d"

text \<open>\<open>a < b\<close> on dates compares the time values; with an invalid date it is false.\<close>

definition dateLess :: "date option \<Rightarrow> date option \<Rightarrow> bool" where
  "dateLess a b = (case (a, b) of (Some x, Some y) \<Rightarrow> x < y | _ \<Rightarrow> False)"

text \<open>\<open>Math.trunc(x / y)\<close> on integers, for \<open>y > 0\<close>: rounds towards zero.\<close>

definition truncDiv :: "int \<Rightarrow> int \<Rightarrow> int" where
  "truncDiv x y = (if 0 \<le> x then x div y else - ((- x) div y))"

text \<open>\<open>x % y\<close> of JavaScript: the remainder has the sign of the dividend.\<close>

definition jsRem :: "int \<Rightarrow> int \<Rightarrow> int" where
  "jsRem x y = x - y * truncDiv x y"

text \<open>date-fns \<open>differenceInMinutes(later, earlier)\<close>: the full minutes between the
  two instants, rounded towards zero; NaN when a date is invalid.\<close>

definition differenceInMinutes :: "date option \<Rightarrow> date option \<Rightarrow> int option" where
  "differenceInMinutes l r =
     (case (l, r) of (Some x, Some y) \<Rightarrow> Some (truncDiv (x - y) msPerMinute) | _ \<Rightarrow> None)"

text \<open>\<open>s.split(":")\<close>.\<close>

fun splitOn :: "char \<Rightarrow> string \<Rightarrow> string list" where
  "splitOn c [] = [[]]"
| "splitOn c (x # xs) =
     (if x = c then [] # splitOn c xs
      else (case splitOn c xs of [] \<Rightarrow> [[x]] | p # ps \<Rightarrow> (x # p) # ps))"

definition isDigit :: "char \<Rightarrow> bool" where
  "isDigit c = (48 \<le> (of_char c :: nat) \<and> (of_char c :: nat) \<le> 57)"

definition digitVal :: "char \<Rightarrow> int" where
  "digitVal c = int (of_char c) - 48"

text \<open>\<open>Number(s)\<close> on the pieces of a time field: the empty string is 0, a string of
  decimal digits is its value. Every other string is taken as NaN here; the value of
  an \<open>input type="time"\<close> is empty or \<open>HH:mm\<close>, so its pieces are digit strings.\<close>

definition Number :: "string \<Rightarrow> int option" where
  "Number s = (if list_all isDigit s then Some (foldl (\<lambda>a c. 10 * a + digitVal c) 0 s) else None)"

text \<open>\<open>const [hours, minutes] = s.split(":").map(Number)\<close>: a missing second piece is
  \<open>undefined\<close>, which \<open>setHours\<close> reads as NaN.\<close>

definition splitClock :: "string \<Rightarrow> int option \<times> int option" where
  "splitClock s =
     (case map Number (splitOn CHR '':'' s) of
        [] \<Rightarrow> (None, None)
      | [h] \<Rightarrow> (h, None)
      | h # m # _ \<Rightarrow> (h, m))"

text \<open>The value an \<open>input type="time"\<close> holds for the clock time \<open>h:m\<close>:
  two digits, a colon, two digits.\<close>

definition digitChar :: "nat \<Rightarrow> char" where
  "digitChar d = char_of (48 + d)"

definition pad2 :: "nat \<Rightarrow> string" where
  "pad2 n = [digitChar (n div 10), digitChar (n mod 10)]"

definition formatClock :: "nat \<Rightarrow> nat \<Rightarrow> string" where
  "formatClock h m = pad2 h @ CHR '':'' # pad2 m"

section \<open>The sleep form: duration preview and creation\<close>

datatype SleepType = nap | night

record Range =
  rmin :: int
  rmax :: int

text \<open>\<open>recommendedDurations\<close>: nap 20 min to 3 h, night 7 h to 13 h.\<close>

fun recommendedDurations :: "SleepType \<Rightarrow> Range" where
  "recommendedDurations nap = \<lparr>rmin = 20, rmax = 180\<rparr>"
| "recommendedDurations night = \<lparr>rmin = 420, rmax = 780\<rparr>"

record FormValues =
  form_date :: "date option"
  form_startTime :: string
  form_endTime :: string
  form_sleepType :: SleepType
  form_notes :: string

text \<open>The local \<open>minutes\<close> of \<open>calculateDuration\<close>. The function reads the clock twice
  (\<open>new Date()\<close> for the start, then for the end): \<open>now1\<close> and \<open>now2\<close> are the two
  readings, and \<open>z\<close> is the time zone of the browser.\<close>

definition elapsedMinutes :: "timeZone \<Rightarrow> date \<Rightarrow> date \<Rightarrow> string \<Rightarrow> string \<Rightarrow> int option" where
  "elapsedMinutes z now1 now2 startTime endTime =
     (let (startHours, startMinutes) = splitClock startTime;
          startDateTime = setHours z (Some now1) startHours startMinutes;
          (endHours, endMinutes) = splitClock endTime;
          endDateTime = setHours z (Some now2) endHours endMinutes;
          endDateTime = (if dateLess endDateTime startDateTime then addOneDay z endDateTime
                         else endDateTime)
      in differenceInMinutes endDateTime startDateTime)"

text \<open>The three classes of the duration preview, named as the classification they show.\<close>

definition BelowRecommended :: string where
  "BelowRecommended = ''text-yellow-500''"

definition AboveRecommended :: string where
  "AboveRecommended = ''text-red-500''"

definition WithinRecommended :: string where
  "WithinRecommended = ''text-green-500''"

text \<open>\<open>durationClass\<close> of \<open>calculateDuration\<close>; a comparison with NaN is false.\<close>

definition durationClass :: "int option \<Rightarrow> SleepType \<Rightarrow> string" where
  "durationClass minutes sleepType =
     (let r = recommendedDurations sleepType in
      if (case minutes of Some n \<Rightarrow> n < rmin r | None \<Rightarrow> False) then ''text-yellow-500''
      else if (case minutes of Some n \<Rightarrow> n > rmax r | None \<Rightarrow> False) then ''text-red-500''
      else ''text-green-500'')"

record Duration =
  dur_hours :: "int option"
  dur_remainingMinutes :: "int option"
  dur_class :: string

text \<open>\<open>calculateDuration\<close>: the text \<open>${hours}h ${remainingMinutes}m\<close> is kept as its two
  numbers.\<close>

definition calculateDuration :: "timeZone \<Rightarrow> date \<Rightarrow> date \<Rightarrow> FormValues \<Rightarrow> Duration" where
  "calculateDuration z now1 now2 form =
     (let minutes = elapsedMinutes z now1 now2 (form_startTime form) (form_endTime form) in
      \<lparr>dur_hours = map_option (\<lambda>n. n div 60) minutes,
       dur_remainingMinutes = map_option (\<lambda>n. jsRem n 60) minutes,
       dur_class = durationClass minutes (form_sleepType form)\<rparr>)"



text \<open>The zone keeps the offset \<open>off\<close> on the wall-clock values from \<open>lo\<close> up to, not
  including, \<open>hi\<close>: there both conversions are a shift by \<open>off\<close>.\<close>

definition offsetIs :: "timeZone \<Rightarrow> int \<Rightarrow> int \<Rightarrow> int \<Rightarrow> bool" where
  "offsetIs z off lo hi =
     ((\<forall>t. lo \<le> t + off \<and> t + off < hi \<longrightarrow> LocalTime z t = t + off) \<and>
      (\<forall>l. lo \<le> l \<and> l < hi \<longrightarrow> UTC z l = l - off))"

text \<open>The zone keeps the offset \<open>off\<close> throughout the local day of the instant \<open>t\<close> and
  the day after it: no daylight-saving change falls into these two days.\<close>

definition steadyOffset :: "timeZone \<Rightarrow> int \<Rightarrow> date \<Rightarrow> bool" where
  "steadyOffset z off t =
     offsetIs z off (((t + off) div msPerDay) * msPerDay)
                    (((t + off) div msPerDay) * msPerDay + 2 * msPerDay)"

section \<open>Values sent to the storage service\<close>

text \<open>
  The value of one field in an update request. A JavaScript number is kept as the exact
  rational it denotes: rounding to a double and overflow are not modelled.
\<close>

datatype jsvalue = JNull | JString string | JNumber rat | JNaN

definition isSpace :: "char \<Rightarrow> bool" where
  "isSpace c = (c = CHR '' '' \<or> (of_char c :: nat) = 9 \<or> (of_char c :: nat) = 10
                \<or> (of_char c :: nat) = 13)"

definition digitsValue :: "string \<Rightarrow> int" where
  "digitsValue ds = foldl (\<lambda>a c. 10 * a + digitVal c) 0 ds"

text \<open>An optional sign in front of a numeral.\<close>

definition takeSign :: "string \<Rightarrow> int \<times> string" where
  "takeSign s =
     (case s of
        [] \<Rightarrow> (1, [])
      | c # r \<Rightarrow> if c = CHR ''-'' then (- 1, r) else if c = CHR ''+'' then (1, r) else (1, s))"

text \<open>\<open>parseInt(s)\<close> with the default radix: leading white space and a sign are skipped,
  the longest run of decimal digits is read, and there being none gives NaN. (The prefix
  \<open>0x\<close> of a hexadecimal numeral is not modelled; the value of a number input has none.)\<close>

definition parseInt :: "string \<Rightarrow> jsvalue" where
  "parseInt str =
     (let (sign, s) = takeSign (dropWhile isSpace str);
          ds = takeWhile isDigit s
      in if ds = [] then JNaN else JNumber (of_int (sign * digitsValue ds)))"

definition pow10 :: "int \<Rightarrow> rat" where
  "pow10 e = (if 0 \<le> e then 10 ^ nat e else 1 / 10 ^ nat (- e))"

text \<open>The exponent part (\<open>e\<close>, sign, digits) at the head of a string; 0 when there is none.\<close>

definition exponentOf :: "string \<Rightarrow> int" where
  "exponentOf r =
     (case r of
        [] \<Rightarrow> 0
      | c # r' \<Rightarrow>
          if c = CHR ''e'' \<or> c = CHR ''E'' then
            (let (sg, r'') = takeSign r'; ds = takeWhile isDigit r''
             in if ds = [] then 0 else sg * digitsValue ds)
          else 0)"

text \<open>\<open>parseFloat(s)\<close>: leading white space is skipped and the longest prefix that is a decimal
  literal is read (sign, digits, fraction, exponent); there being none gives NaN.
  (\<open>Infinity\<close> is not modelled.)\<close>

definition parseFloat :: "string \<Rightarrow> jsvalue" where
  "parseFloat str =
     (let (sign, s) = takeSign (dropWhile isSpace str);
          ip = takeWhile isDigit s;
          r1 = dropWhile isDigit s;
          (fp, r2) = (case r1 of
                        [] \<Rightarrow> ([], [])
                      | c # r \<Rightarrow> if c = CHR ''.'' then (takeWhile isDigit r, dropWhile isDigit r)
                                 else ([], r1))
      in if ip = [] \<and> fp = [] then JNaN
         else JNumber (of_int sign
                * (of_int (digitsValue ip) + of_int (digitsValue fp) / 10 ^ length fp)
                * pow10 (exponentOf r2)))"

text \<open>\<open>n.toString()\<close> of a number: an integer prints its decimal digits, any other number
  its integer part, a point and up to 17 digits of its fraction (the shortest digits that
  read back as the same double are not modelled).\<close>

fun natToString :: "nat \<Rightarrow> string" where
  "natToString n = (if n < 10 then [digitChar n] else natToString (n div 10) @ [digitChar (n mod 10)])"

declare natToString.simps [simp del]

fun fracDigits :: "nat \<Rightarrow> rat \<Rightarrow> string" where
  "fracDigits 0 q = []"
| "fracDigits (Suc k) q =
     (if q = 0 then []
      else digitChar (nat \<lfloor>q * 10\<rfloor>) # fracDigits k (q * 10 - of_int \<lfloor>q * 10\<rfloor>))"

definition numberToString :: "rat \<Rightarrow> string" where
  "numberToString q =
     (let a = \<bar>q\<bar>; ip = \<lfloor>a\<rfloor>; fr = a - of_int ip in
      (if q < 0 then ''-'' else '''') @ natToString (nat ip)
        @ (if fr = 0 then '''' else CHR ''.'' # fracDigits 17 fr))"

section \<open>The state of a log table and its environment\<close>

text \<open>
  Both tables (\<open>FeedingLog\<close>, \<open>SleepLog\<close>) are React components with the same state:
  \<open>editingId\<close>, \<open>savingField\<close>, \<open>highlightedField\<close> and the ref \<open>editTimeoutRef\<close>. The
  model adds what the handlers act on outside the component: a clock in milliseconds and
  the armed timers of \<open>setTimeout\<close>, the calls made to the storage service's update
  operation, the mutations still awaiting their answer, the toasts shown, the number of
  invalidations of the list query, and the list the query last delivered (\<open>rows\<close>).
  Of the page the model keeps what the scripted focus changes of \<open>FeedingLog\<close> depend on:
  \<open>focusedInput\<close>, the input of a row being edited that holds the focus, with the record
  its handlers were rendered with, its \<open>data-field\<close> and the text it shows (\<open>None\<close> when
  the focus is on no such input), and \<open>tableShown\<close>, whether the viewport is wide enough
  for the table to be displayed (\<open>hidden md:block\<close>) rather than the list of cards
  (\<open>md:hidden\<close>).
\<close>

type_synonym field = string

record toast =
  toast_title :: "string option"
  toast_description :: string
  toast_destructive :: bool
  toast_duration :: "nat option"

text \<open>The callbacks handed to \<open>setTimeout\<close>: the delayed commit of the sleep table with
  the record id, field and value it closes over, the clearing of the highlight, and the
  focusing of the next input after Tab.\<close>

datatype callback =
    Commit nat field jsvalue
  | ClearHighlight
  | FocusNext field

record timer =
  timer_handle :: nat
  timer_due :: nat
  timer_cb :: callback

text \<open>One call of \<open>updateMutation.mutate\<close> awaiting its answer, with what its callbacks
  close over.\<close>

record mutation =
  mut_key :: nat
  mut_id :: nat
  mut_field :: field
  mut_value :: jsvalue

record 'r table =
  rows :: "'r list"
  editingId :: "nat option"
  savingField :: "(nat \<times> field) option"
  highlightedField :: "(nat \<times> field) option"
  editTimeoutRef :: "nat option"
  clock :: nat
  nextHandle :: nat
  timers :: "timer list"
  requests :: "(nat \<times> field \<times> jsvalue) list"
  inFlight :: "mutation list"
  nextMutation :: nat
  currentMutation :: "nat option"
  toasts :: "toast list"
  invalidations :: nat
  focusedInput :: "('r \<times> field \<times> string) option"
  tableShown :: bool

text \<open>A freshly mounted table showing \<open>rs\<close>, on a wide viewport. Timer handles start
  at 1: a handle is truthy.\<close>

definition mounted :: "'r list \<Rightarrow> 'r table" where
  "mounted rs =
     \<lparr>rows = rs, editingId = None, savingField = None, highlightedField = None,
      editTimeoutRef = None, clock = 0, nextHandle = 1, timers = [], requests = [],
      inFlight = [], nextMutation = 0, currentMutation = None, toasts = [],
      invalidations = 0, focusedInput = None, tableShown = True\<rparr>"

text \<open>\<open>setTimeout(cb, delay)\<close> arms a timer and returns its handle;
  \<open>clearTimeout(h)\<close> disarms it.\<close>

definition setTimeout :: "callback \<Rightarrow> nat \<Rightarrow> 'r table \<Rightarrow> nat \<times> 'r table" where
  "setTimeout cb delay s =
     (nextHandle s,
      s\<lparr>timers := timers s @ [\<lparr>timer_handle = nextHandle s, timer_due = clock s + delay,
                                 timer_cb = cb\<rparr>],
        nextHandle := Suc (nextHandle s)\<rparr>)"

definition clearTimeout :: "nat \<Rightarrow> 'r table \<Rightarrow> 'r table" where
  "clearTimeout h s = s\<lparr>timers := filter (\<lambda>t. timer_handle t \<noteq> h) (timers s)\<rparr>"

definition showToast :: "toast \<Rightarrow> 'r table \<Rightarrow> 'r table" where
  "showToast t s = s\<lparr>toasts := toasts s @ [t]\<rparr>"

text \<open>\<open>updateMutation.mutate({id, data: {[field]: v}}, callbacks)\<close>: the mutation function
  calls the update operation of the storage service at once, and the mutation becomes the
  one the component's mutation observer follows.\<close>

definition mutate :: "nat \<Rightarrow> field \<Rightarrow> jsvalue \<Rightarrow> 'r table \<Rightarrow> 'r table" where
  "mutate i f v s =
     s\<lparr>requests := requests s @ [(i, f, v)],
       inFlight := inFlight s @ [\<lparr>mut_key = nextMutation s, mut_id = i, mut_field = f,
                                   mut_value = v\<rparr>],
       currentMutation := Some (nextMutation s),
       nextMutation := Suc (nextMutation s)\<rparr>"

text \<open>The passing of time. The timers due within the next \<open>d\<close> milliseconds fire in the
  order of their due times, timers due together in the order they were armed; a timer
  disarmed meanwhile does not fire. \<open>fire\<close> runs a callback in the component. (No callback of
  the two components arms a timer, so the timers that fire are among those armed at the
  start.)\<close>

definition dueTimers :: "nat \<Rightarrow> timer list \<Rightarrow> timer list" where
  "dueTimers t ts = sort_key timer_due (filter (\<lambda>x. timer_due x \<le> t) ts)"

definition fireNow ::
    "(callback \<Rightarrow> 'r table \<Rightarrow> 'r table) \<Rightarrow> timer \<Rightarrow> 'r table \<Rightarrow> 'r table" where
  "fireNow fire x s =
     fire (timer_cb x)
       (s\<lparr>clock := max (clock s) (timer_due x),
          timers := filter (\<lambda>t. timer_handle t \<noteq> timer_handle x) (timers s)\<rparr>)"

definition fireTimer ::
    "(callback \<Rightarrow> 'r table \<Rightarrow> 'r table) \<Rightarrow> timer \<Rightarrow> 'r table \<Rightarrow> 'r table" where
  "fireTimer fire x s = (if x \<in> set (timers s) then fireNow fire x s else s)"

definition elapse ::
    "(callback \<Rightarrow> 'r table \<Rightarrow> 'r table) \<Rightarrow> nat \<Rightarrow> 'r table \<Rightarrow> 'r table" where
  "elapse fire d s =
     (fold (fireTimer fire) (dueTimers (clock s + d) (timers s)) s)\<lparr>clock := clock s + d\<rparr>"

text \<open>The commits waiting for their settle delay: the armed timers that will dispatch an
  update, with record id, field and value.\<close>

fun commitOf :: "callback \<Rightarrow> (nat \<times> field \<times> jsvalue) list" where
  "commitOf (Commit i f v) = [(i, f, v)]"
| "commitOf ClearHighlight = []"
| "commitOf (FocusNext f) = []"

definition pendingCommits :: "'r table \<Rightarrow> (nat \<times> field \<times> jsvalue) list" where
  "pendingCommits s = concat (map (\<lambda>t. commitOf (timer_cb t)) (timers s))"

section \<open>The feeding table\<close>

record Feeding =
  feeding_id :: nat
  feeding_timestamp :: string
  feeding_feedingType :: string
  feeding_duration :: int
  feeding_amount :: "rat option"
  feeding_notes :: "string option"

text \<open>\<open>feeding[field]?.toString()\<close>; \<open>None\<close> is \<open>undefined\<close>.\<close>

definition fieldText :: "Feeding \<Rightarrow> field \<Rightarrow> string option" where
  "fieldText feeding f =
     (if f = ''id'' then Some (natToString (feeding_id feeding))
      else if f = ''timestamp'' then Some (feeding_timestamp feeding)
      else if f = ''feedingType'' then Some (feeding_feedingType feeding)
      else if f = ''duration'' then
        Some ((if feeding_duration feeding < 0 then ''-'' else '''') @ natToString (nat \<bar>feeding_duration feeding\<bar>))
      else if f = ''amount'' then map_option numberToString (feeding_amount feeding)
      else if f = ''notes'' then feeding_notes feeding
      else None)"

text \<open>The callbacks of \<open>useMutation\<close> in \<open>FeedingLog\<close>, run for every mutation.\<close>

definition FeedingLog_updateMutation_onSuccess :: "Feeding table \<Rightarrow> Feeding table" where
  "FeedingLog_updateMutation_onSuccess s =
     (let s = s\<lparr>invalidations := Suc (invalidations s)\<rparr>;
          s = showToast \<lparr>toast_title = Some ''Success'',
                         toast_description = ''Feeding log updated successfully'',
                         toast_destructive = False, toast_duration = None\<rparr> s
      in s\<lparr>editingId := None\<rparr>)"

definition FeedingLog_updateMutation_onError :: "Feeding table \<Rightarrow> Feeding table" where
  "FeedingLog_updateMutation_onError s =
     showToast \<lparr>toast_title = Some ''Error'',
                 toast_description = ''Failed to update feeding log'',
                 toast_destructive = True, toast_duration = None\<rparr> s"

text \<open>The callbacks \<open>handleInlineEdit\<close> passes to \<open>mutate\<close>, closing over the record id and
  the field.\<close>

definition FeedingLog_handleInlineEdit_onSuccess ::
    "nat \<Rightarrow> field \<Rightarrow> Feeding table \<Rightarrow> Feeding table" where
  "FeedingLog_handleInlineEdit_onSuccess i f s =
     (let s = showToast \<lparr>toast_title = None, toast_description = ''Changes saved successfully'',
                         toast_destructive = False, toast_duration = Some 2000\<rparr> s;
          s = s\<lparr>highlightedField := Some (i, f)\<rparr>;
          s = snd (setTimeout ClearHighlight 1000 s);
          s = s\<lparr>editingId := None\<rparr>
      in s\<lparr>savingField := None\<rparr>)"

definition FeedingLog_handleInlineEdit_onError :: "Feeding table \<Rightarrow> Feeding table" where
  "FeedingLog_handleInlineEdit_onError s =
     showToast \<lparr>toast_title = Some ''Error'', toast_description = ''Failed to save changes'',
                 toast_destructive = True, toast_duration = None\<rparr>
       (s\<lparr>savingField := None\<rparr>)"

text \<open>The update operation answers for the mutation \<open>k\<close>: \<open>ok\<close> when it resolves, otherwise
  it rejects. The callbacks of \<open>useMutation\<close> run first; the callbacks passed to \<open>mutate\<close> run
  after them and only when the mutation is still the one the observer follows, that is the
  latest \<open>mutate\<close> call (the library's rule for consecutive mutations).\<close>

definition FeedingLog_settle :: "nat \<Rightarrow> bool \<Rightarrow> Feeding table \<Rightarrow> Feeding table" where
  "FeedingLog_settle k ok s =
     (case find (\<lambda>m. mut_key m = k) (inFlight s) of
        None \<Rightarrow> s
      | Some m \<Rightarrow>
          (let latest = (currentMutation s = Some k);
               s = s\<lparr>inFlight := filter (\<lambda>m. mut_key m \<noteq> k) (inFlight s)\<rparr>
           in if ok then
                (let s = FeedingLog_updateMutation_onSuccess s
                 in if latest then FeedingLog_handleInlineEdit_onSuccess (mut_id m) (mut_field m) s
                    else s)
              else
                (let s = FeedingLog_updateMutation_onError s
                 in if latest then FeedingLog_handleInlineEdit_onError s else s)))"

text \<open>\<open>handleInlineEdit(feeding, field, value)\<close> of \<open>FeedingLog\<close>.\<close>

definition FeedingLog_handleInlineEdit ::
    "Feeding \<Rightarrow> field \<Rightarrow> jsvalue \<Rightarrow> Feeding table \<Rightarrow> Feeding table" where
  "FeedingLog_handleInlineEdit feeding f v s =
     mutate (feeding_id feeding) f v (s\<lparr>savingField := Some (feeding_id feeding, f)\<rparr>)"

text \<open>The value \<open>handleKeyDown\<close> and \<open>handleClickOutside\<close> compute from the text of an input:
  \<open>field === 'amount' ? (text ? parseFloat(text) : null) : text\<close>.\<close>

definition keyedValue :: "field \<Rightarrow> string \<Rightarrow> jsvalue" where
  "keyedValue f txt =
     (if f = ''amount'' then (if txt \<noteq> [] then parseFloat txt else JNull) else JString txt)"

text \<open>The \<open>onBlur\<close> handlers of the three inputs of a row being edited (the select of the
  feeding type has none); \<open>txt\<close> is \<open>e.target.value\<close>.\<close>

definition FeedingLog_onBlur ::
    "Feeding \<Rightarrow> field \<Rightarrow> string \<Rightarrow> Feeding table \<Rightarrow> Feeding table" where
  "FeedingLog_onBlur feeding f txt s =
     (if f = ''duration'' then FeedingLog_handleInlineEdit feeding ''duration'' (parseInt txt) s
      else if f = ''amount'' then
        FeedingLog_handleInlineEdit feeding ''amount''
          (if txt \<noteq> [] then parseFloat txt else JNull) s
      else if f = ''notes'' then FeedingLog_handleInlineEdit feeding ''notes'' (JString txt) s
      else s)"

text \<open>\<open>editableFields.indexOf(field)\<close>, \<open>-1\<close> when absent, and the field after it in the
  cycle.\<close>

definition editableFields :: "field list" where
  "editableFields = [''feedingType'', ''duration'', ''amount'', ''notes'']"

fun indexOf :: "'a list \<Rightarrow> 'a \<Rightarrow> int" where
  "indexOf [] x = - 1"
| "indexOf (y # ys) x = (if y = x then 0 else (let i = indexOf ys x in if i < 0 then - 1 else i + 1))"

definition nextField :: "field \<Rightarrow> field" where
  "nextField f =
     editableFields ! nat (jsRem (indexOf editableFields f + 1) (int (length editableFields)))"

text \<open>\<open>handleKeyDown(e, feeding, field)\<close>, the \<open>onKeyDown\<close> of the three inputs; \<open>key\<close> is
  \<open>e.key\<close> and \<open>txt\<close> is \<open>e.currentTarget.value\<close>. The target of a key event is the
  focused element, so \<open>target.blur()\<close> in the Escape branch takes the focus from it and the
  browser delivers the blur event to its \<open>onBlur\<close> handler before \<open>blur()\<close> returns.\<close>

definition FeedingLog_handleKeyDown ::
    "string \<Rightarrow> string \<Rightarrow> Feeding \<Rightarrow> field \<Rightarrow> Feeding table \<Rightarrow> Feeding table" where
  "FeedingLog_handleKeyDown key txt feeding f s =
     (if key = ''Enter'' then FeedingLog_handleInlineEdit feeding f (keyedValue f txt) s
      else if key = ''Escape'' then
        (let s = s\<lparr>editingId := None\<rparr>
         in FeedingLog_onBlur feeding f txt s)
      else if key = ''Tab'' then
        (let s = (if Some txt \<noteq> fieldText feeding f
                  then FeedingLog_handleInlineEdit feeding f (keyedValue f txt) s else s);
             s = s\<lparr>editingId := Some (feeding_id feeding)\<rparr>
         in snd (setTimeout (FocusNext (nextField f)) 0 s))
      else s)"

text \<open>
  \<open>document.querySelector(`[data-field="${g}"][data-editing="true"]`)?.focus()\<close>, the
  scripted move of the focus. The first element of the document with these attributes is the
  one in the table row of the record being edited (the cards come later in the document):
  the select trigger, the duration input, the amount input of a bottle feeding, or the
  notes input; when no row is being edited or the row has no such element the selector
  finds nothing. \<open>focus()\<close> has no effect on an element that is not displayed, which is the
  case of the table on a narrow viewport, nor on the element that holds the focus already.
  Otherwise the focus moves: the input that held it gets the blur event, delivered to its
  \<open>onBlur\<close> handler before \<open>focus()\<close> returns, and the element found holds the focus. An
  input that receives the focus in this way is taken to show the text it was rendered with
  (its \<open>defaultValue\<close>); the select trigger has no \<open>onBlur\<close> handler and is not kept as
  \<open>focusedInput\<close>.
\<close>

definition FeedingLog_focus :: "field \<Rightarrow> Feeding table \<Rightarrow> Feeding table" where
  "FeedingLog_focus g s =
     (case find (\<lambda>feeding. editingId s = Some (feeding_id feeding)) (rows s) of
        None \<Rightarrow> s
      | Some feeding \<Rightarrow>
          if \<not> (g = ''feedingType'' \<or> g = ''duration'' \<or>
                (g = ''amount'' \<and> feeding_feedingType feeding = ''bottle'') \<or> g = ''notes'')
          then s
          else if \<not> tableShown s then s
          else
            (let nextInput =
                   (if g = ''feedingType'' then None
                    else Some (feeding, g,
                               case fieldText feeding g of None \<Rightarrow> [] | Some t \<Rightarrow> t))
             in case focusedInput s of
                  None \<Rightarrow> s\<lparr>focusedInput := nextInput\<rparr>
                | Some (held, f, tx) \<Rightarrow>
                    if feeding_id held \<noteq> feeding_id feeding then s\<lparr>focusedInput := nextInput\<rparr>
                    else if f = g then s
                    else FeedingLog_onBlur held f tx (s\<lparr>focusedInput := nextInput\<rparr>)))"

text \<open>The \<open>onKeyDown\<close> of the select trigger of the feeding type: Escape leaves edit mode,
  Tab moves the focus to the duration input at once.\<close>

definition FeedingLog_SelectTrigger_onKeyDown :: "string \<Rightarrow> Feeding table \<Rightarrow> Feeding table" where
  "FeedingLog_SelectTrigger_onKeyDown key s =
     (if key = ''Escape'' then s\<lparr>editingId := None\<rparr>
      else if key = ''Tab'' then FeedingLog_focus ''duration'' s
      else s)"

text \<open>The elements of the document that carry \<open>data-editing="true"\<close>, in document order.
  A row whose id is \<open>editingId\<close> renders, in the table, the select trigger of the feeding
  type, the duration input, the amount input (bottle feedings only) and the notes input,
  and in the card list further down the duration, amount and notes inputs again. \<open>txt\<close>
  gives the text typed into each input, \<open>focus\<close> the element holding the focus, and
  \<open>triggerValue\<close> what the \<open>value\<close> property of the trigger button reads. (The select
  component of \<open>@/components/ui/select\<close> is not modelled: its trigger is taken to hand the
  \<open>data-\<close> attributes it is given to the button it renders, whose \<open>value\<close> is left open
  as a parameter.)\<close>

datatype layout = TableRow | Card

record element =
  el_layout :: layout
  data_field :: field
  el_value :: string
  el_focused :: bool

definition editingElements ::
    "layout \<Rightarrow> string \<Rightarrow> (layout \<Rightarrow> field \<Rightarrow> string) \<Rightarrow> (layout \<times> field) option
       \<Rightarrow> Feeding \<Rightarrow> element list" where
  "editingElements l triggerValue txt focus feeding =
     (let input = (\<lambda>f. \<lparr>el_layout = l, data_field = f, el_value = txt l f,
                           el_focused = (focus = Some (l, f))\<rparr>)
      in (if l = TableRow
          then [\<lparr>el_layout = l, data_field = ''feedingType'', el_value = triggerValue,
                  el_focused = (focus = Some (l, ''feedingType''))\<rparr>]
          else [])
         @ [input ''duration'']
         @ (if feeding_feedingType feeding = ''bottle'' then [input ''amount''] else [])
         @ [input ''notes''])"

definition FeedingLog_document ::
    "string \<Rightarrow> (layout \<Rightarrow> field \<Rightarrow> string) \<Rightarrow> (layout \<times> field) option
       \<Rightarrow> Feeding table \<Rightarrow> element list" where
  "FeedingLog_document triggerValue txt focus s =
     concat (map (\<lambda>l. concat (map (editingElements l triggerValue txt focus)
                                  (filter (\<lambda>feeding. editingId s = Some (feeding_id feeding)) (rows s))))
                 [TableRow, Card])"

text \<open>\<open>document.querySelector('[data-editing="true"]')\<close>: the first such element of the
  document.\<close>

definition querySelector_editing :: "element list \<Rightarrow> element option" where
  "querySelector_editing doc = (case doc of [] \<Rightarrow> None | e # _ \<Rightarrow> Some e)"

text \<open>\<open>handleClickOutside\<close> of \<open>FeedingLog\<close>, the listener for \<open>mousedown\<close> on the document;
  \<open>outside\<close> tells whether the target lies outside the component.\<close>

definition FeedingLog_handleClickOutside ::
    "element list \<Rightarrow> bool \<Rightarrow> Feeding table \<Rightarrow> Feeding table" where
  "FeedingLog_handleClickOutside doc outside s =
     (if outside then
        (let s =
           (if editingId s \<noteq> None then
              (case querySelector_editing doc of
                 None \<Rightarrow> s
               | Some activeInput \<Rightarrow>
                   (let f = data_field activeInput in
                    case find (\<lambda>feeding. Some (feeding_id feeding) = editingId s) (rows s) of
                      None \<Rightarrow> s
                    | Some feeding \<Rightarrow>
                        FeedingLog_handleInlineEdit feeding f
                          (keyedValue f (el_value activeInput)) s))
            else s)
         in s\<lparr>editingId := None\<rparr>)
      else s)"

text \<open>The timer callbacks of \<open>FeedingLog\<close>: the clearing of the highlight, and the move of
  the focus to the next field after Tab or after a choice in the select, which makes the
  input left commit its text through its \<open>onBlur\<close> handler. \<open>FeedingLog\<close> arms no commit
  timer.\<close>

fun FeedingLog_fire :: "callback \<Rightarrow> Feeding table \<Rightarrow> Feeding table" where
  "FeedingLog_fire ClearHighlight s = s\<lparr>highlightedField := None\<rparr>"
| "FeedingLog_fire (FocusNext f) s = FeedingLog_focus f s"
| "FeedingLog_fire (Commit i f v) s = s"

text \<open>What can happen to a mounted feeding table: a cell or the menu sets \<open>editingId\<close>,
  keys are pressed in an input or on the select trigger, an input loses the focus, a feeding
  type is chosen in the select of the table (which also asks for the focus to move on) or of
  the card list, the mouse goes down somewhere in the document, the update
  operation answers, time passes, the list query delivers a new list, the user puts the
  caret into an input of the row being edited or types in it, the viewport becomes wide or
  narrow.

  The events also tell where the focus is. The target of a key event is the element that
  holds the focus: a key pressed in an input makes it the \<open>focusedInput\<close> with the text the
  event carries, and Escape, which ends with \<open>target.blur()\<close>, leaves no input focused; a
  key pressed on the select trigger, a choice in the open select, a click on a cell or a
  menu entry (\<open>SetEditingId\<close>) and a blur find the focus on no input. When the user moves the caret from one input to
  another, the input left gets its blur event first.\<close>

datatype feeding_event =
    SetEditingId "nat option"
  | KeyDown string string Feeding field
  | TriggerKeyDown string
  | Blur Feeding field string
  | ValueChange Feeding string
  | CardValueChange Feeding string
  | MouseDown "element list" bool
  | FeedingSettle nat bool
  | FeedingElapse nat
  | FeedingRefetched "Feeding list"
  | Focus Feeding field string
  | Resize bool

fun FeedingLog_step :: "feeding_event \<Rightarrow> Feeding table \<Rightarrow> Feeding table" where
  "FeedingLog_step (SetEditingId i) s = s\<lparr>editingId := i, focusedInput := None\<rparr>"
| "FeedingLog_step (KeyDown key txt feeding f) s =
     (let s = FeedingLog_handleKeyDown key txt feeding f
                (s\<lparr>focusedInput := Some (feeding, f, txt)\<rparr>)
      in if key = ''Escape'' then s\<lparr>focusedInput := None\<rparr> else s)"
| "FeedingLog_step (TriggerKeyDown key) s =
     FeedingLog_SelectTrigger_onKeyDown key (s\<lparr>focusedInput := None\<rparr>)"
| "FeedingLog_step (Blur feeding f txt) s =
     FeedingLog_onBlur feeding f txt (s\<lparr>focusedInput := None\<rparr>)"
| "FeedingLog_step (ValueChange feeding v) s =
     snd (setTimeout (FocusNext ''duration'') 0
            (FeedingLog_handleInlineEdit feeding ''feedingType'' (JString v)
               (s\<lparr>focusedInput := None\<rparr>)))"
| "FeedingLog_step (CardValueChange feeding v) s =
     FeedingLog_handleInlineEdit feeding ''feedingType'' (JString v) (s\<lparr>focusedInput := None\<rparr>)"
| "FeedingLog_step (MouseDown doc outside) s = FeedingLog_handleClickOutside doc outside s"
| "FeedingLog_step (FeedingSettle k ok) s = FeedingLog_settle k ok s"
| "FeedingLog_step (FeedingElapse d) s = elapse FeedingLog_fire d s"
| "FeedingLog_step (FeedingRefetched rs) s = s\<lparr>rows := rs\<rparr>"
| "FeedingLog_step (Focus feeding f txt) s =
     (let s = (case focusedInput s of
                 None \<Rightarrow> s
               | Some (held, g, tx) \<Rightarrow>
                   if feeding_id held = feeding_id feeding \<and> g = f then s
                   else FeedingLog_onBlur held g tx s)
      in s\<lparr>focusedInput := Some (feeding, f, txt)\<rparr>)"
| "FeedingLog_step (Resize wide) s = s\<lparr>tableShown := wide\<rparr>"

definition FeedingLog_run :: "feeding_event list \<Rightarrow> Feeding table \<Rightarrow> Feeding table" where
  "FeedingLog_run evs s = fold FeedingLog_step evs s"

text \<open>A bottle feeding with id 7 and a table showing it, the row being edited.\<close>

definition feeding7 :: Feeding where
  "feeding7 =
     \<lparr>feeding_id = 7, feeding_timestamp = ''2024-11-29T05:00:00.000Z'',
      feeding_feedingType = ''bottle'', feeding_duration = 20, feeding_amount = Some 4,
      feeding_notes = None\<rparr>"

definition editing7 :: "Feeding table" where
  "editing7 = FeedingLog_run [SetEditingId (Some 7)] (mounted [feeding7])"

section \<open>The sleep table\<close>

record Sleep =
  sleep_id :: nat
  sleep_startTime :: string
  sleep_endTime :: "string option"
  sleep_sleepType :: string
  sleep_notes :: "string option"

text \<open>The callbacks of \<open>useMutation\<close> in \<open>SleepLog\<close>.\<close>

definition SleepLog_updateMutation_onSuccess :: "Sleep table \<Rightarrow> Sleep table" where
  "SleepLog_updateMutation_onSuccess s =
     (let s = s\<lparr>invalidations := Suc (invalidations s)\<rparr>;
          s = showToast \<lparr>toast_title = Some ''Success'',
                         toast_description = ''Sleep log updated successfully'',
                         toast_destructive = False, toast_duration = None\<rparr> s
      in s\<lparr>editingId := None\<rparr>)"

definition SleepLog_updateMutation_onError :: "Sleep table \<Rightarrow> Sleep table" where
  "SleepLog_updateMutation_onError s =
     showToast \<lparr>toast_title = Some ''Error'',
                 toast_description = ''Failed to update sleep log'',
                 toast_destructive = True, toast_duration = None\<rparr> s"

text \<open>The one callback the timeout of \<open>handleInlineEdit\<close> passes to \<open>mutate\<close>.\<close>

definition SleepLog_handleInlineEdit_onSuccess ::
    "nat \<Rightarrow> field \<Rightarrow> Sleep table \<Rightarrow> Sleep table" where
  "SleepLog_handleInlineEdit_onSuccess i f s =
     (let s = showToast \<lparr>toast_title = None, toast_description = ''Changes saved successfully'',
                         toast_destructive = False, toast_duration = Some 2000\<rparr> s;
          s = s\<lparr>highlightedField := Some (i, f)\<rparr>
      in snd (setTimeout ClearHighlight 1000 s))"

definition SleepLog_settle :: "nat \<Rightarrow> bool \<Rightarrow> Sleep table \<Rightarrow> Sleep table" where
  "SleepLog_settle k ok s =
     (case find (\<lambda>m. mut_key m = k) (inFlight s) of
        None \<Rightarrow> s
      | Some m \<Rightarrow>
          (let latest = (currentMutation s = Some k);
               s = s\<lparr>inFlight := filter (\<lambda>m. mut_key m \<noteq> k) (inFlight s)\<rparr>
           in if ok then
                (let s = SleepLog_updateMutation_onSuccess s
                 in if latest then SleepLog_handleInlineEdit_onSuccess (mut_id m) (mut_field m) s
                    else s)
              else SleepLog_updateMutation_onError s))"

text \<open>\<open>handleInlineEdit(sleep, field, value)\<close> of \<open>SleepLog\<close>: the pending timeout is
  cleared and a new one armed for 500 ms.\<close>

definition SleepLog_handleInlineEdit ::
    "Sleep \<Rightarrow> field \<Rightarrow> jsvalue \<Rightarrow> Sleep table \<Rightarrow> Sleep table" where
  "SleepLog_handleInlineEdit sleep f v s =
     (let s = (case editTimeoutRef s of Some h \<Rightarrow> clearTimeout h s | None \<Rightarrow> s);
          s = s\<lparr>savingField := Some (sleep_id sleep, f)\<rparr>;
          (h, s) = setTimeout (Commit (sleep_id sleep) f v) 500 s
      in s\<lparr>editTimeoutRef := Some h\<rparr>)"

text \<open>The timer callbacks of \<open>SleepLog\<close>; the first is the body of the timeout of
  \<open>handleInlineEdit\<close>.\<close>

fun SleepLog_fire :: "callback \<Rightarrow> Sleep table \<Rightarrow> Sleep table" where
  "SleepLog_fire (Commit i f v) s =
     (let s = mutate i f v s;
          s = s\<lparr>editingId := None\<rparr>;
          s = s\<lparr>savingField := None\<rparr>
      in s\<lparr>editTimeoutRef := None\<rparr>)"
| "SleepLog_fire ClearHighlight s = s\<lparr>highlightedField := None\<rparr>"
| "SleepLog_fire (FocusNext f) s = s"

text \<open>\<open>handleClickOutside\<close> of \<open>SleepLog\<close>.\<close>

definition SleepLog_handleClickOutside :: "bool \<Rightarrow> Sleep table \<Rightarrow> Sleep table" where
  "SleepLog_handleClickOutside outside s =
     (if outside then
        (let s = (case editTimeoutRef s of
                    Some h \<Rightarrow> (clearTimeout h s)\<lparr>editTimeoutRef := None\<rparr>
                  | None \<Rightarrow> s)
         in s\<lparr>editingId := None\<rparr>)
      else s)"

text \<open>What can happen to a mounted sleep table, and the states it can reach.\<close>

datatype sleep_event =
    InlineEdit Sleep field jsvalue
  | ClickOutside bool
  | Settle nat bool
  | Elapse nat
  | Refetched "Sleep list"

fun SleepLog_step :: "sleep_event \<Rightarrow> Sleep table \<Rightarrow> Sleep table" where
  "SleepLog_step (InlineEdit sleep f v) s = SleepLog_handleInlineEdit sleep f v s"
| "SleepLog_step (ClickOutside outside) s = SleepLog_handleClickOutside outside s"
| "SleepLog_step (Settle k ok) s = SleepLog_settle k ok s"
| "SleepLog_step (Elapse d) s = elapse SleepLog_fire d s"
| "SleepLog_step (Refetched rs) s = s\<lparr>rows := rs\<rparr>"

definition SleepLog_run :: "sleep_event list \<Rightarrow> Sleep table \<Rightarrow> Sleep table" where
  "SleepLog_run evs s = fold SleepLog_step evs s"

text \<open>Two sleep records.\<close>

definition sleep1 :: Sleep where
  "sleep1 = \<lparr>sleep_id = 1, sleep_startTime = ''2024-11-28T13:00:00.000Z'',
              sleep_endTime = Some ''2024-11-28T14:00:00.000Z'', sleep_sleepType = ''nap'',
              sleep_notes = None\<rparr>"

definition sleep2 :: Sleep where
  "sleep2 = \<lparr>sleep_id = 2, sleep_startTime = ''2024-11-28T20:00:00.000Z'',
              sleep_endTime = Some ''2024-11-29T06:00:00.000Z'', sleep_sleepType = ''night'',
              sleep_notes = None\<rparr>"

text \<open>What the handlers keep true of the timers: handles are never reused, and in the
  sleep table a timer that will dispatch a commit is the one \<open>editTimeoutRef\<close> holds.\<close>

definition handles_fresh :: "'r table \<Rightarrow> bool" where
  "handles_fresh s =
     (distinct (map timer_handle (timers s)) \<and>
      list_all (\<lambda>t. timer_handle t < nextHandle s) (timers s))"

definition commit_held :: "'r table \<Rightarrow> bool" where
  "commit_held s =
     list_all (\<lambda>t. commitOf (timer_cb t) = [] \<or> editTimeoutRef s = Some (timer_handle t))
       (timers s)"

section \<open>Clock strings parse back\<close>

lemma of_char_digitChar: "d < 10 \<Longrightarrow> (of_char (digitChar d) :: nat) = 48 + d"
  by (simp add: digitChar_def)

lemma isDigit_digitChar: "d < 10 \<Longrightarrow> isDigit (digitChar d)"
  by (simp add: isDigit_def of_char_digitChar)

lemma digitVal_digitChar: "d < 10 \<Longrightarrow> digitVal (digitChar d) = int d"
  by (simp add: digitVal_def of_char_digitChar)

lemma digitChar_not_colon: "d < 10 \<Longrightarrow> digitChar d \<noteq> CHR '':''"
proof
  assume d: "d < 10" and eq: "digitChar d = CHR '':''"
  have "(of_char (digitChar d) :: nat) = of_char CHR '':''"
    using eq by simp
  then show False
    using d by (simp add: of_char_digitChar)
qed

lemma Number_pad2: "n < 100 \<Longrightarrow> Number (pad2 n) = Some (int n)"
proof -
  assume n: "n < 100"
  have a: "n div 10 < 10" and b: "n mod 10 < 10"
    using n by simp_all
  have "int (n div 10) * 10 + int (n mod 10) = int n"
    by (simp add: zdiv_int zmod_int)
  then show ?thesis
    using a b by (simp add: Number_def pad2_def isDigit_digitChar digitVal_digitChar mult.commute)
qed

lemma splitOn_pad2: "n < 100 \<Longrightarrow> splitOn CHR '':'' (pad2 n) = [pad2 n]"
proof -
  assume n: "n < 100"
  have a: "n div 10 < 10" and b: "n mod 10 < 10"
    using n by simp_all
  show ?thesis
    using digitChar_not_colon [OF a] digitChar_not_colon [OF b] by (simp add: pad2_def)
qed

lemma splitClock_formatClock:
  assumes "h < 100" and "m < 100"
  shows "splitClock (formatClock h m) = (Some (int h), Some (int m))"
proof -
  have a: "h div 10 < 10" and b: "h mod 10 < 10"
    using assms by simp_all
  have "splitOn CHR '':'' (formatClock h m) = [pad2 h, pad2 m]"
    using digitChar_not_colon [OF a] digitChar_not_colon [OF b] splitOn_pad2 [OF assms(2)]
    by (simp add: formatClock_def pad2_def)
  then show ?thesis
    using assms by (simp add: splitClock_def Number_pad2)
qed

section \<open>Rollover arithmetic\<close>


lemma truncDiv_minutes:
  assumes "0 \<le> r" and "r < 60000" and "0 \<le> k"
  shows "truncDiv (k * 60000 + r) 60000 = k"
proof -
  have "0 \<le> k * 60000 + r"
    using assms by simp
  moreover have "(k * 60000 + r) div 60000 = k"
    using assms by simp
  ultimately show ?thesis
    by (simp add: truncDiv_def)
qed

lemma clock_offset_bounds:
  fixes t :: int
  assumes "h < 24" and "m < 60"
  shows "0 \<le> int h * 3600000 + int m * 60000 + t mod 60000"
    and "int h * 3600000 + int m * 60000 + t mod 60000 < 86400000"
proof -
  have a: "0 \<le> t mod 60000" and b: "t mod 60000 < 60000"
    by simp_all
  have c: "int h \<le> 23" and d: "int m \<le> 59"
    using assms by simp_all
  show "0 \<le> int h * 3600000 + int m * 60000 + t mod 60000"
    using a by simp
  show "int h * 3600000 + int m * 60000 + t mod 60000 < 86400000"
    using b c d by linarith
qed

lemma day_bounds:
  fixes l :: int
  shows "(l div 86400000) * 86400000 \<le> l" and "l < (l div 86400000) * 86400000 + 86400000"
proof -
  have a: "l = (l div 86400000) * 86400000 + l mod 86400000"
    by simp
  have b: "0 \<le> l mod 86400000" and c: "l mod 86400000 < 86400000"
    by simp_all
  show "(l div 86400000) * 86400000 \<le> l"
    using a b by linarith
  show "l < (l div 86400000) * 86400000 + 86400000"
    using a c by linarith
qed

text \<open>On two well-formed clock strings the preview computes a number: the difference of
  the two instants, the end moved to the next local day when it is before the start.\<close>

lemma elapsedMinutes_formatClock:
  assumes "sh < 24" and "sm < 60" and "eh < 24" and "em < 60"
  shows "elapsedMinutes z now1 now2 (formatClock sh sm) (formatClock eh em) =
     (let start = UTC z ((LocalTime z now1 div 86400000) * 86400000
                         + (int sh * 3600000 + int sm * 60000 + LocalTime z now1 mod 60000));
          end0 = UTC z ((LocalTime z now2 div 86400000) * 86400000
                        + (int eh * 3600000 + int em * 60000 + LocalTime z now2 mod 60000))
      in Some (truncDiv ((if end0 < start then UTC z (LocalTime z end0 + 86400000) else end0)
                         - start) 60000))"
  using assms
  by (simp add: elapsedMinutes_def splitClock_formatClock setHours_def dateLess_def addOneDay_def
      differenceInMinutes_def msPerDay_def msPerHour_def msPerMinute_def Let_def add.assoc)

text \<open>Where the zone keeps one offset over the local day of the two readings and the day
  after, the computation is the one on wall-clock values: the instants are the wall-clock
  values shifted by the offset, which cancels in the comparison and in the difference.\<close>

lemma elapsedMinutes_wall_clock:
  assumes c: "sh < 24" "sm < 60" "eh < 24" "em < 60"
      and st: "steadyOffset z off now1"
      and day: "(now2 + off) div 86400000 = (now1 + off) div 86400000"
  shows "elapsedMinutes z now1 now2 (formatClock sh sm) (formatClock eh em) =
     Some (truncDiv
       ((if ((now1 + off) div 86400000) * 86400000
              + (int eh * 3600000 + int em * 60000 + (now2 + off) mod 60000)
            < ((now1 + off) div 86400000) * 86400000
              + (int sh * 3600000 + int sm * 60000 + (now1 + off) mod 60000)
         then ((now1 + off) div 86400000) * 86400000
              + (int eh * 3600000 + int em * 60000 + (now2 + off) mod 60000) + 86400000
         else ((now1 + off) div 86400000) * 86400000
              + (int eh * 3600000 + int em * 60000 + (now2 + off) mod 60000))
        - (((now1 + off) div 86400000) * 86400000
           + (int sh * 3600000 + int sm * 60000 + (now1 + off) mod 60000))) 60000)"
proof -
  define l1 where "l1 = now1 + off"
  define l2 where "l2 = now2 + off"
  define base where "base = (l1 div 86400000) * 86400000"
  define cs where "cs = int sh * 3600000 + int sm * 60000 + l1 mod 60000"
  define ce where "ce = int eh * 3600000 + int em * 60000 + l2 mod 60000"
  have csb: "0 \<le> cs" "cs < 86400000"
    unfolding cs_def by (rule clock_offset_bounds [OF c(1,2)])+
  have ceb: "0 \<le> ce" "ce < 86400000"
    unfolding ce_def by (rule clock_offset_bounds [OF c(3,4)])+
  have b1: "base \<le> l1" "l1 < base + 86400000"
    unfolding base_def by (rule day_bounds)+
  have base2: "(l2 div 86400000) * 86400000 = base"
    using day by (simp only: l1_def l2_def base_def)
  have b2: "base \<le> l2" "l2 < base + 86400000"
    unfolding base2 [symmetric] by (rule day_bounds)+
  have w: "offsetIs z off base (base + 172800000)"
    using st by (simp add: steadyOffset_def msPerDay_def base_def l1_def)
  have loc: "LocalTime z t = t + off" if "base \<le> t + off" and "t + off < base + 172800000" for t
    using w that by (simp add: offsetIs_def)
  have utc: "UTC z l = l - off" if "base \<le> l" and "l < base + 172800000" for l
    using w that by (simp add: offsetIs_def)
  have L1: "LocalTime z now1 = l1"
    using loc [of now1] b1 by (simp add: l1_def)
  have L2: "LocalTime z now2 = l2"
    using loc [of now2] b2 by (simp add: l2_def)
  have U1: "UTC z (base + cs) = base + cs - off"
    using utc [of "base + cs"] csb by simp
  have U2: "UTC z (base + ce) = base + ce - off"
    using utc [of "base + ce"] ceb by simp
  have L3: "LocalTime z (base + ce - off) = base + ce"
    using loc [of "base + ce - off"] ceb by simp
  have U3: "UTC z (base + ce + 86400000) = base + ce + 86400000 - off"
    using utc [of "base + ce + 86400000"] ceb by simp
  have "elapsedMinutes z now1 now2 (formatClock sh sm) (formatClock eh em) =
     (let start = UTC z (base + cs); end0 = UTC z (base + ce)
      in Some (truncDiv ((if end0 < start then UTC z (LocalTime z end0 + 86400000) else end0)
                         - start) 60000))"
    unfolding elapsedMinutes_formatClock [OF c] L1 L2 base2
    unfolding base_def [symmetric] cs_def [symmetric] ce_def [symmetric] ..
  also have "\<dots> = Some (truncDiv ((if base + ce < base + cs then base + ce + 86400000 else base + ce)
                                  - (base + cs)) 60000)"
    by (simp add: Let_def U1 U2 L3 U3)
  finally show ?thesis
    unfolding base_def cs_def ce_def l1_def l2_def .
qed

text \<open>When, besides, both clock readings fall in the same minute of local time, the result
  is the plain difference of the clocks in minutes, with 24 hours added when the end clock
  is before the start clock.\<close>

lemma elapsedMinutes_same_minute:
  assumes c: "sh < 24" "sm < 60" "eh < 24" "em < 60"
      and le: "now1 \<le> now2"
      and minute: "(now2 + off) div msPerMinute = (now1 + off) div msPerMinute"
      and st: "steadyOffset z off now1"
  shows "elapsedMinutes z now1 now2 (formatClock sh sm) (formatClock eh em) =
         Some (if 60 * eh + em < 60 * sh + sm
               then (24 * 60 - int (60 * sh + sm)) + int (60 * eh + em)
               else int (60 * eh + em) - int (60 * sh + sm))"
proof -
  define l1 where "l1 = now1 + off"
  define l2 where "l2 = now2 + off"
  define a where "a = l1 div 60000"
  define r1 where "r1 = l1 mod 60000"
  define r2 where "r2 = l2 mod 60000"
  have n1: "l1 = a * 60000 + r1"
    by (simp add: a_def r1_def)
  have "l2 = (l2 div 60000) * 60000 + l2 mod 60000"
    by simp
  then have n2: "l2 = a * 60000 + r2"
    using minute by (simp only: a_def r2_def l1_def l2_def msPerMinute_def)
  have l12: "l1 \<le> l2"
    using le by (simp add: l1_def l2_def)
  have r12: "r1 \<le> r2"
    using l12 n1 n2 by simp
  have b1: "0 \<le> r1" and b2: "r2 < 60000"
    by (simp_all add: r1_def r2_def)
  have day: "l2 div 86400000 = l1 div 86400000"
  proof -
    have "l2 div (60000 * 1440) = l2 div 60000 div 1440"
      by (rule zdiv_zmult2_eq) simp
    moreover have "l1 div (60000 * 1440) = l1 div 60000 div 1440"
      by (rule zdiv_zmult2_eq) simp
    ultimately show ?thesis
      using minute by (simp add: msPerMinute_def l1_def l2_def)
  qed
  define S where "S = int (60 * sh + sm)"
  define E where "E = int (60 * eh + em)"
  have Sb: "0 \<le> S" "S < 1440" and Eb: "0 \<le> E" "E < 1440"
    using c by (simp_all add: S_def E_def)
  have sofs: "int sh * 3600000 + int sm * 60000 = S * 60000"
    by (simp add: S_def)
  have eofs: "int eh * 3600000 + int em * 60000 = E * 60000"
    by (simp add: E_def)
  define base where "base = (l1 div 86400000) * 86400000"
  have form: "elapsedMinutes z now1 now2 (formatClock sh sm) (formatClock eh em) =
     Some (truncDiv ((if base + (E * 60000 + r2) < base + (S * 60000 + r1)
                      then base + (E * 60000 + r2) + 86400000 else base + (E * 60000 + r2))
                     - (base + (S * 60000 + r1))) 60000)"
    unfolding elapsedMinutes_wall_clock [OF c st day [unfolded l1_def l2_def]]
    unfolding l1_def [symmetric] l2_def [symmetric] base_def [symmetric]
      r1_def [symmetric] r2_def [symmetric] sofs eofs ..
  show ?thesis
  proof (cases "E < S")
    case True
    have lt: "base + (E * 60000 + r2) < base + (S * 60000 + r1)"
      using True b1 b2 by linarith
    have d: "base + (E * 60000 + r2) + 86400000 - (base + (S * 60000 + r1))
          = (1440 + E - S) * 60000 + (r2 - r1)"
      by (simp add: algebra_simps)
    have t: "truncDiv ((1440 + E - S) * 60000 + (r2 - r1)) 60000 = 1440 + E - S"
      using r12 b1 b2 Sb Eb by (intro truncDiv_minutes) simp_all
    have "elapsedMinutes z now1 now2 (formatClock sh sm) (formatClock eh em)
          = Some (truncDiv (base + (E * 60000 + r2) + 86400000 - (base + (S * 60000 + r1))) 60000)"
      using lt by (simp only: form if_True)
    then have "elapsedMinutes z now1 now2 (formatClock sh sm) (formatClock eh em)
               = Some (1440 + E - S)"
      by (simp only: d t)
    then show ?thesis
      using True by (simp add: S_def E_def)
  next
    case False
    have ge: "\<not> base + (E * 60000 + r2) < base + (S * 60000 + r1)"
      using False r12 by linarith
    have d: "base + (E * 60000 + r2) - (base + (S * 60000 + r1)) = (E - S) * 60000 + (r2 - r1)"
      by (simp add: algebra_simps)
    have t: "truncDiv ((E - S) * 60000 + (r2 - r1)) 60000 = E - S"
      using r12 b1 b2 False by (intro truncDiv_minutes) simp_all
    have "elapsedMinutes z now1 now2 (formatClock sh sm) (formatClock eh em)
          = Some (truncDiv (base + (E * 60000 + r2) - (base + (S * 60000 + r1))) 60000)"
      using ge by (simp only: form if_False)
    then have "elapsedMinutes z now1 now2 (formatClock sh sm) (formatClock eh em)
               = Some (E - S)"
      by (simp only: d t)
    then show ?thesis
      using False by (simp add: S_def E_def)
  qed
qed

text \<open>A zone with one offset keeps it on every day, and a zone that changes its offset
  keeps the old one on the days that end before the change.\<close>

lemma offsetIs_fixedZone: "offsetIs (fixedZone off) off lo hi"
  by (simp add: offsetIs_def fixedZone_def)

lemma steadyOffset_fixedZone: "steadyOffset (fixedZone off) off t"
  by (simp add: steadyOffset_def offsetIs_fixedZone)

lemma offsetIs_changingZone_before:
  assumes "hi \<le> T + before" and "hi \<le> T + after"
  shows "offsetIs (changingZone T before after) before lo hi"
  using assms by (auto simp: offsetIs_def changingZone_def)

lemma formatClock_22_00: "formatClock 22 0 = ''22:00''"
  by code_simp

lemma formatClock_06_00: "formatClock 6 0 = ''06:00''"
  by code_simp




lemma durationClass_Some:
  "durationClass (Some n) t =
     (if n < rmin (recommendedDurations t) then BelowRecommended
      else if rmax (recommendedDurations t) < n then AboveRecommended
      else WithinRecommended)"
  by (simp add: durationClass_def BelowRecommended_def AboveRecommended_def
      WithinRecommended_def Let_def)

lemma classes_distinct:
  "BelowRecommended \<noteq> AboveRecommended" "BelowRecommended \<noteq> WithinRecommended"
  "AboveRecommended \<noteq> WithinRecommended"
  by (simp_all add: BelowRecommended_def AboveRecommended_def WithinRecommended_def)

lemma range_ordered: "rmin (recommendedDurations t) \<le> rmax (recommendedDurations t)"
  by (cases t) simp_all

section \<open>Timers\<close>

lemma setTimeout_fields [simp]:
  "fst (setTimeout cb d s) = nextHandle s"
  "timers (snd (setTimeout cb d s)) =
     timers s @ [\<lparr>timer_handle = nextHandle s, timer_due = clock s + d, timer_cb = cb\<rparr>]"
  "nextHandle (snd (setTimeout cb d s)) = Suc (nextHandle s)"
  "clock (snd (setTimeout cb d s)) = clock s"
  "requests (snd (setTimeout cb d s)) = requests s"
  "editTimeoutRef (snd (setTimeout cb d s)) = editTimeoutRef s"
  "editingId (snd (setTimeout cb d s)) = editingId s"
  "savingField (snd (setTimeout cb d s)) = savingField s"
  "highlightedField (snd (setTimeout cb d s)) = highlightedField s"
  "inFlight (snd (setTimeout cb d s)) = inFlight s"
  "currentMutation (snd (setTimeout cb d s)) = currentMutation s"
  "nextMutation (snd (setTimeout cb d s)) = nextMutation s"
  "toasts (snd (setTimeout cb d s)) = toasts s"
  "invalidations (snd (setTimeout cb d s)) = invalidations s"
  "rows (snd (setTimeout cb d s)) = rows s"
  "focusedInput (snd (setTimeout cb d s)) = focusedInput s"
  "tableShown (snd (setTimeout cb d s)) = tableShown s"
  by (simp_all add: setTimeout_def)

lemma clearTimeout_fields [simp]:
  "timers (clearTimeout h s) = filter (\<lambda>t. timer_handle t \<noteq> h) (timers s)"
  "nextHandle (clearTimeout h s) = nextHandle s"
  "clock (clearTimeout h s) = clock s"
  "requests (clearTimeout h s) = requests s"
  "editTimeoutRef (clearTimeout h s) = editTimeoutRef s"
  "editingId (clearTimeout h s) = editingId s"
  "savingField (clearTimeout h s) = savingField s"
  "highlightedField (clearTimeout h s) = highlightedField s"
  "inFlight (clearTimeout h s) = inFlight s"
  "currentMutation (clearTimeout h s) = currentMutation s"
  "nextMutation (clearTimeout h s) = nextMutation s"
  "toasts (clearTimeout h s) = toasts s"
  "invalidations (clearTimeout h s) = invalidations s"
  "rows (clearTimeout h s) = rows s"
  "focusedInput (clearTimeout h s) = focusedInput s"
  "tableShown (clearTimeout h s) = tableShown s"
  by (simp_all add: clearTimeout_def)

lemma mutate_fields [simp]:
  "timers (mutate i f v s) = timers s"
  "nextHandle (mutate i f v s) = nextHandle s"
  "clock (mutate i f v s) = clock s"
  "requests (mutate i f v s) = requests s @ [(i, f, v)]"
  "editTimeoutRef (mutate i f v s) = editTimeoutRef s"
  "editingId (mutate i f v s) = editingId s"
  "savingField (mutate i f v s) = savingField s"
  "highlightedField (mutate i f v s) = highlightedField s"
  "inFlight (mutate i f v s) =
     inFlight s @ [\<lparr>mut_key = nextMutation s, mut_id = i, mut_field = f, mut_value = v\<rparr>]"
  "currentMutation (mutate i f v s) = Some (nextMutation s)"
  "nextMutation (mutate i f v s) = Suc (nextMutation s)"
  "toasts (mutate i f v s) = toasts s"
  "invalidations (mutate i f v s) = invalidations s"
  "rows (mutate i f v s) = rows s"
  "focusedInput (mutate i f v s) = focusedInput s"
  "tableShown (mutate i f v s) = tableShown s"
  by (simp_all add: mutate_def)

lemma showToast_fields [simp]:
  "timers (showToast t s) = timers s"
  "nextHandle (showToast t s) = nextHandle s"
  "clock (showToast t s) = clock s"
  "requests (showToast t s) = requests s"
  "editTimeoutRef (showToast t s) = editTimeoutRef s"
  "editingId (showToast t s) = editingId s"
  "savingField (showToast t s) = savingField s"
  "highlightedField (showToast t s) = highlightedField s"
  "inFlight (showToast t s) = inFlight s"
  "currentMutation (showToast t s) = currentMutation s"
  "nextMutation (showToast t s) = nextMutation s"
  "toasts (showToast t s) = toasts s @ [t]"
  "invalidations (showToast t s) = invalidations s"
  "rows (showToast t s) = rows s"
  "focusedInput (showToast t s) = focusedInput s"
  "tableShown (showToast t s) = tableShown s"
  by (simp_all add: showToast_def)

text \<open>Firing the timers of a list one after the other, when all of them are armed.\<close>

lemma handle_eq_in_distinct:
  assumes "distinct (map timer_handle ts)" and "x \<in> set ts" and "y \<in> set ts"
      and "timer_handle x = timer_handle y"
  shows "x = y"
  using assms by (meson distinct_map inj_onD)

lemma fireTimer_armed: "x \<in> set (timers s) \<Longrightarrow> fireTimer fire x s = fireNow fire x s"
  by (simp add: fireTimer_def)

lemma fold_fireTimer_armed:
  assumes fire_timers: "\<And>cb s. timers (fire cb s) = timers s"
  shows "distinct (map timer_handle (timers s)) \<Longrightarrow> distinct xs \<Longrightarrow> set xs \<subseteq> set (timers s)
         \<Longrightarrow> fold (fireTimer fire) xs s = fold (fireNow fire) xs s"
proof (induction xs arbitrary: s)
  case Nil
  then show ?case by simp
next
  case (Cons x xs)
  let ?s1 = "fireNow fire x s"
  have armed: "x \<in> set (timers s)"
    using Cons.prems by simp
  have t1: "timers ?s1 = filter (\<lambda>t. timer_handle t \<noteq> timer_handle x) (timers s)"
    by (simp add: fireNow_def fire_timers)
  have d1: "distinct (map timer_handle (timers ?s1))"
    using Cons.prems(1) by (simp add: t1 distinct_map_filter)
  have sub: "set xs \<subseteq> set (timers ?s1)"
  proof
    fix y assume y: "y \<in> set xs"
    then have "y \<in> set (timers s)" and "y \<noteq> x"
      using Cons.prems by auto
    then have "timer_handle y \<noteq> timer_handle x"
      using handle_eq_in_distinct [OF Cons.prems(1) _ armed] by blast
    then show "y \<in> set (timers ?s1)"
      using \<open>y \<in> set (timers s)\<close> by (simp add: t1)
  qed
  have "fold (fireTimer fire) xs ?s1 = fold (fireNow fire) xs ?s1"
    using Cons.IH [OF d1 _ sub] Cons.prems(2) by simp
  then show ?case
    using armed by (simp add: fireTimer_armed)
qed

lemma dueTimers_set [simp]: "set (dueTimers t ts) = {x \<in> set ts. timer_due x \<le> t}"
  by (auto simp: dueTimers_def)

lemma dueTimers_distinct: "distinct ts \<Longrightarrow> distinct (dueTimers t ts)"
  by (simp add: dueTimers_def)

lemma distinct_handles_distinct: "distinct (map timer_handle ts) \<Longrightarrow> distinct ts"
  by (simp add: distinct_map)

lemma elapse_armed:
  assumes "\<And>cb s. timers (fire cb s) = timers s"
      and "distinct (map timer_handle (timers s))"
  shows "elapse fire d s =
         (fold (fireNow fire) (dueTimers (clock s + d) (timers s)) s)\<lparr>clock := clock s + d\<rparr>"
proof -
  have "fold (fireTimer fire) (dueTimers (clock s + d) (timers s)) s
        = fold (fireNow fire) (dueTimers (clock s + d) (timers s)) s"
    using assms(2)
    by (intro fold_fireTimer_armed assms(1) dueTimers_distinct distinct_handles_distinct) auto
  then show ?thesis
    by (simp add: elapse_def)
qed

lemma fold_fireNow_timers:
  assumes "\<And>cb s. timers (fire cb s) = timers s"
  shows "timers (fold (fireNow fire) xs s)
         = filter (\<lambda>t. timer_handle t \<notin> timer_handle ` set xs) (timers s)"
proof (induction xs arbitrary: s)
  case Nil
  then show ?case by simp
next
  case (Cons x xs)
  have "timers (fireNow fire x s) = filter (\<lambda>t. timer_handle t \<noteq> timer_handle x) (timers s)"
    by (simp add: fireNow_def assms)
  then show ?case
    by (simp add: Cons.IH)
qed


lemma elapse_timers:
  assumes "\<And>cb s. timers (fire cb s) = timers s"
      and "distinct (map timer_handle (timers s))"
  shows "timers (elapse fire d s) = filter (\<lambda>t. clock s + d < timer_due t) (timers s)"
proof -
  have "filter (\<lambda>t. timer_handle t \<notin> timer_handle ` set (dueTimers (clock s + d) (timers s)))
          (timers s)
        = filter (\<lambda>t. clock s + d < timer_due t) (timers s)"
  proof (rule filter_cong [OF refl])
    fix t assume t: "t \<in> set (timers s)"
    show "(timer_handle t \<notin> timer_handle ` set (dueTimers (clock s + d) (timers s)))
          = (clock s + d < timer_due t)"
    proof
      assume "timer_handle t \<notin> timer_handle ` set (dueTimers (clock s + d) (timers s))"
      then have "t \<notin> set (dueTimers (clock s + d) (timers s))"
        by blast
      then show "clock s + d < timer_due t"
        using t by simp
    next
      assume late: "clock s + d < timer_due t"
      show "timer_handle t \<notin> timer_handle ` set (dueTimers (clock s + d) (timers s))"
      proof
        assume "timer_handle t \<in> timer_handle ` set (dueTimers (clock s + d) (timers s))"
        then obtain x where x: "x \<in> set (timers s)" "timer_due x \<le> clock s + d"
            and h: "timer_handle t = timer_handle x"
          by auto
        then have "t = x"
          using handle_eq_in_distinct [OF assms(2) t x(1)] by simp
        then show False
          using late x(2) by simp
      qed
    qed
  qed
  then show ?thesis
    by (simp add: elapse_armed [OF assms] fold_fireNow_timers [OF assms(1)])
qed

lemma elapse_clock [simp]: "clock (elapse fire d s) = clock s + d"
  by (simp add: elapse_def)

text \<open>Lists of which at most one element contributes.\<close>

lemma concat_map_empty: "(\<And>x. x \<in> set xs \<Longrightarrow> c x = []) \<Longrightarrow> concat (map c xs) = []"
  by (induction xs) simp_all

lemma concat_map_single:
  assumes "distinct xs" and "x \<in> set xs" and "\<And>y. y \<in> set xs \<Longrightarrow> y \<noteq> x \<Longrightarrow> c y = []"
  shows "concat (map c xs) = c x"
  using assms
proof (induction xs)
  case Nil
  then show ?case by simp
next
  case (Cons a xs)
  show ?case
  proof (cases "a = x")
    case True
    have "concat (map c xs) = []"
      using Cons.prems True by (intro concat_map_empty) auto
    then show ?thesis
      using True by simp
  next
    case False
    then have "c a = []" and "x \<in> set xs"
      using Cons.prems by auto
    moreover have "concat (map c xs) = c x"
      using Cons.IH Cons.prems \<open>x \<in> set xs\<close> by auto
    ultimately show ?thesis
      by simp
  qed
qed

section \<open>Timer callbacks of the two tables\<close>

lemma SleepLog_fire_fields [simp]:
  "timers (SleepLog_fire cb s) = timers s"
  "nextHandle (SleepLog_fire cb s) = nextHandle s"
  "clock (SleepLog_fire cb s) = clock s"
  "requests (SleepLog_fire cb s) = requests s @ commitOf cb"
  "editTimeoutRef (SleepLog_fire cb s) = (if commitOf cb = [] then editTimeoutRef s else None)"
  "highlightedField (SleepLog_fire cb s) = (if cb = ClearHighlight then None else highlightedField s)"
  "rows (SleepLog_fire cb s) = rows s"
  by (cases cb; simp add: Let_def)+

text \<open>The scripted move of the focus can dispatch an update, through the \<open>onBlur\<close> handler
  of the input left; it arms no timer and leaves edit mode and the highlight as they are.\<close>

lemma FeedingLog_focus_fields [simp]:
  "timers (FeedingLog_focus g s) = timers s"
  "nextHandle (FeedingLog_focus g s) = nextHandle s"
  "clock (FeedingLog_focus g s) = clock s"
  "editTimeoutRef (FeedingLog_focus g s) = editTimeoutRef s"
  "editingId (FeedingLog_focus g s) = editingId s"
  "highlightedField (FeedingLog_focus g s) = highlightedField s"
  "rows (FeedingLog_focus g s) = rows s"
  by (simp_all add: FeedingLog_focus_def FeedingLog_onBlur_def FeedingLog_handleInlineEdit_def
      Let_def split: option.splits prod.splits)

lemma FeedingLog_fire_fields [simp]:
  "timers (FeedingLog_fire cb s) = timers s"
  "nextHandle (FeedingLog_fire cb s) = nextHandle s"
  "clock (FeedingLog_fire cb s) = clock s"
  "editTimeoutRef (FeedingLog_fire cb s) = editTimeoutRef s"
  "editingId (FeedingLog_fire cb s) = editingId s"
  "highlightedField (FeedingLog_fire cb s) = (if cb = ClearHighlight then None else highlightedField s)"
  "rows (FeedingLog_fire cb s) = rows s"
  by (cases cb; simp)+

lemma fold_fireNow_requests:
  "requests (fold (fireNow SleepLog_fire) xs s)
   = requests s @ concat (map (\<lambda>x. commitOf (timer_cb x)) xs)"
  by (induction xs arbitrary: s) (simp_all add: fireNow_def)

lemma fold_fireNow_editTimeoutRef:
  "editTimeoutRef (fold (fireNow SleepLog_fire) xs s)
   = (if concat (map (\<lambda>x. commitOf (timer_cb x)) xs) = [] then editTimeoutRef s else None)"
  by (induction xs arbitrary: s) (simp_all add: fireNow_def)

lemma fold_fireNow_nextHandle:
  assumes "\<And>cb s. nextHandle (fire cb s) = nextHandle s"
  shows "nextHandle (fold (fireNow fire) xs s) = nextHandle s"
  by (induction xs arbitrary: s) (simp_all add: fireNow_def assms)

lemma fold_fireNow_highlightedField:
  assumes "\<And>cb s. highlightedField (fire cb s)
                    = (if cb = ClearHighlight then None else highlightedField s)"
  shows "highlightedField (fold (fireNow fire) xs s)
         = (if ClearHighlight \<in> timer_cb ` set xs then None else highlightedField s)"
  by (induction xs arbitrary: s) (auto simp: fireNow_def assms)

lemma elapse_Sleep_requests:
  assumes "distinct (map timer_handle (timers s))"
  shows "requests (elapse SleepLog_fire d s)
         = requests s @ concat (map (\<lambda>x. commitOf (timer_cb x))
                                   (dueTimers (clock s + d) (timers s)))"
  by (simp add: elapse_armed [OF _ assms] fold_fireNow_requests)

lemma elapse_Sleep_editTimeoutRef:
  assumes "distinct (map timer_handle (timers s))"
  shows "editTimeoutRef (elapse SleepLog_fire d s)
         = (if concat (map (\<lambda>x. commitOf (timer_cb x)) (dueTimers (clock s + d) (timers s))) = []
            then editTimeoutRef s else None)"
  by (simp add: elapse_armed [OF _ assms] fold_fireNow_editTimeoutRef)

lemma elapse_nextHandle:
  assumes "\<And>cb s. timers (fire cb s) = timers s"
      and "\<And>cb s. nextHandle (fire cb s) = nextHandle s"
      and "distinct (map timer_handle (timers s))"
  shows "nextHandle (elapse fire d s) = nextHandle s"
  by (simp add: elapse_armed [OF assms(1,3)] fold_fireNow_nextHandle [OF assms(2)])

lemma elapse_highlightedField:
  assumes "\<And>cb s. timers (fire cb s) = timers s"
      and "\<And>cb s. highlightedField (fire cb s)
                    = (if cb = ClearHighlight then None else highlightedField s)"
      and "distinct (map timer_handle (timers s))"
  shows "highlightedField (elapse fire d s)
         = (if list_ex (\<lambda>x. timer_cb x = ClearHighlight \<and> timer_due x \<le> clock s + d) (timers s)
            then None else highlightedField s)"
proof -
  have "(ClearHighlight \<in> timer_cb ` set (dueTimers (clock s + d) (timers s)))
        = list_ex (\<lambda>x. timer_cb x = ClearHighlight \<and> timer_due x \<le> clock s + d) (timers s)"
    by (force simp: list_ex_iff image_iff)
  then show ?thesis
    by (simp add: elapse_armed [OF assms(1,3)] fold_fireNow_highlightedField [OF assms(2)])
qed


section \<open>Fresh handles\<close>

lemma handles_fresh_mounted: "handles_fresh (mounted rs)"
  by (simp add: handles_fresh_def mounted_def)

lemma handles_fresh_same:
  "handles_fresh s \<Longrightarrow> timers s' = timers s \<Longrightarrow> nextHandle s' = nextHandle s \<Longrightarrow> handles_fresh s'"
  by (simp add: handles_fresh_def)

lemma handles_fresh_setTimeout:
  assumes "handles_fresh s"
  shows "handles_fresh (snd (setTimeout cb d s))"
proof -
  have "nextHandle s \<notin> timer_handle ` set (timers s)"
    using assms by (auto simp: handles_fresh_def list_all_iff)
  moreover have "list_all (\<lambda>t. timer_handle t < Suc (nextHandle s)) (timers s)"
    using assms by (auto simp: handles_fresh_def list_all_iff)
  ultimately show ?thesis
    using assms by (simp add: handles_fresh_def)
qed

lemma handles_fresh_filter:
  assumes "handles_fresh s" and "timers s' = filter P (timers s)" and "nextHandle s' = nextHandle s"
  shows "handles_fresh s'"
  using assms by (auto simp: handles_fresh_def distinct_map_filter list_all_iff)

lemma handles_fresh_elapse:
  assumes "\<And>cb s. timers (fire cb s) = timers s"
      and "\<And>cb s. nextHandle (fire cb s) = nextHandle s"
      and "handles_fresh s"
  shows "handles_fresh (elapse fire d s)"
proof -
  have d: "distinct (map timer_handle (timers s))"
    using assms(3) by (simp add: handles_fresh_def)
  show ?thesis
    by (rule handles_fresh_filter [OF assms(3) elapse_timers [OF assms(1) d]
          elapse_nextHandle [OF assms(1,2) d]])
qed

section \<open>The handlers of the feeding table, field by field\<close>

lemma FeedingLog_handleInlineEdit_fields [simp]:
  "timers (FeedingLog_handleInlineEdit feeding f v s) = timers s"
  "nextHandle (FeedingLog_handleInlineEdit feeding f v s) = nextHandle s"
  "clock (FeedingLog_handleInlineEdit feeding f v s) = clock s"
  "requests (FeedingLog_handleInlineEdit feeding f v s) = requests s @ [(feeding_id feeding, f, v)]"
  "editTimeoutRef (FeedingLog_handleInlineEdit feeding f v s) = editTimeoutRef s"
  "editingId (FeedingLog_handleInlineEdit feeding f v s) = editingId s"
  "savingField (FeedingLog_handleInlineEdit feeding f v s) = Some (feeding_id feeding, f)"
  "highlightedField (FeedingLog_handleInlineEdit feeding f v s) = highlightedField s"
  "inFlight (FeedingLog_handleInlineEdit feeding f v s) =
     inFlight s @ [\<lparr>mut_key = nextMutation s, mut_id = feeding_id feeding, mut_field = f,
                    mut_value = v\<rparr>]"
  "currentMutation (FeedingLog_handleInlineEdit feeding f v s) = Some (nextMutation s)"
  "nextMutation (FeedingLog_handleInlineEdit feeding f v s) = Suc (nextMutation s)"
  "toasts (FeedingLog_handleInlineEdit feeding f v s) = toasts s"
  "invalidations (FeedingLog_handleInlineEdit feeding f v s) = invalidations s"
  "rows (FeedingLog_handleInlineEdit feeding f v s) = rows s"
  "focusedInput (FeedingLog_handleInlineEdit feeding f v s) = focusedInput s"
  "tableShown (FeedingLog_handleInlineEdit feeding f v s) = tableShown s"
  by (simp_all add: FeedingLog_handleInlineEdit_def)

lemma FeedingLog_onBlur_handles [simp]:
  "timers (FeedingLog_onBlur feeding f txt s) = timers s"
  "nextHandle (FeedingLog_onBlur feeding f txt s) = nextHandle s"
  by (simp_all add: FeedingLog_onBlur_def)

lemma FeedingLog_handleKeyDown_handles:
  "timers (FeedingLog_handleKeyDown key txt feeding f s)
   = timers s @ (if key = ''Tab''
                 then [\<lparr>timer_handle = nextHandle s, timer_due = clock s,
                         timer_cb = FocusNext (nextField f)\<rparr>]
                 else [])"
  "nextHandle (FeedingLog_handleKeyDown key txt feeding f s)
   = (if key = ''Tab'' then Suc (nextHandle s) else nextHandle s)"
  by (simp_all add: FeedingLog_handleKeyDown_def Let_def)

lemma handles_fresh_FeedingLog_handleKeyDown:
  assumes "handles_fresh s"
  shows "handles_fresh (FeedingLog_handleKeyDown key txt feeding f s)"
proof (cases "key = ''Tab''")
  case True
  have "handles_fresh (snd (setTimeout (FocusNext (nextField f)) 0 s))"
    using assms by (rule handles_fresh_setTimeout)
  then show ?thesis
    by (rule handles_fresh_same) (simp_all add: FeedingLog_handleKeyDown_handles True)
next
  case False
  show ?thesis
    by (rule handles_fresh_same [OF assms]) (simp_all add: FeedingLog_handleKeyDown_handles False)
qed

lemma FeedingLog_handleClickOutside_handles [simp]:
  "timers (FeedingLog_handleClickOutside doc outside s) = timers s"
  "nextHandle (FeedingLog_handleClickOutside doc outside s) = nextHandle s"
  by (simp_all add: FeedingLog_handleClickOutside_def Let_def split: option.splits)

lemma FeedingLog_hook_fields [simp]:
  "timers (FeedingLog_updateMutation_onSuccess s) = timers s"
  "nextHandle (FeedingLog_updateMutation_onSuccess s) = nextHandle s"
  "clock (FeedingLog_updateMutation_onSuccess s) = clock s"
  "highlightedField (FeedingLog_updateMutation_onSuccess s) = highlightedField s"
  "timers (FeedingLog_updateMutation_onError s) = timers s"
  "nextHandle (FeedingLog_updateMutation_onError s) = nextHandle s"
  "clock (FeedingLog_updateMutation_onError s) = clock s"
  "timers (FeedingLog_handleInlineEdit_onError s) = timers s"
  "nextHandle (FeedingLog_handleInlineEdit_onError s) = nextHandle s"
  by (simp_all add: FeedingLog_updateMutation_onSuccess_def FeedingLog_updateMutation_onError_def
      FeedingLog_handleInlineEdit_onError_def Let_def)

lemma FeedingLog_handleInlineEdit_onSuccess_fields [simp]:
  "timers (FeedingLog_handleInlineEdit_onSuccess i f s)
   = timers s @ [\<lparr>timer_handle = nextHandle s, timer_due = clock s + 1000,
                   timer_cb = ClearHighlight\<rparr>]"
  "nextHandle (FeedingLog_handleInlineEdit_onSuccess i f s) = Suc (nextHandle s)"
  "clock (FeedingLog_handleInlineEdit_onSuccess i f s) = clock s"
  "highlightedField (FeedingLog_handleInlineEdit_onSuccess i f s) = Some (i, f)"
  by (simp_all add: FeedingLog_handleInlineEdit_onSuccess_def Let_def)

lemma FeedingLog_settle_handles:
  "timers (FeedingLog_settle k ok s)
   = timers s @ (if ok \<and> currentMutation s = Some k \<and> find (\<lambda>m. mut_key m = k) (inFlight s) \<noteq> None
                 then [\<lparr>timer_handle = nextHandle s, timer_due = clock s + 1000,
                         timer_cb = ClearHighlight\<rparr>]
                 else [])"
  "nextHandle (FeedingLog_settle k ok s)
   = (if ok \<and> currentMutation s = Some k \<and> find (\<lambda>m. mut_key m = k) (inFlight s) \<noteq> None
      then Suc (nextHandle s) else nextHandle s)"
  by (simp_all add: FeedingLog_settle_def Let_def split: option.splits)

lemma handles_fresh_FeedingLog_settle:
  assumes "handles_fresh s"
  shows "handles_fresh (FeedingLog_settle k ok s)"
proof (cases "ok \<and> currentMutation s = Some k \<and> find (\<lambda>m. mut_key m = k) (inFlight s) \<noteq> None")
  case True
  have "handles_fresh (snd (setTimeout ClearHighlight 1000 s))"
    using assms by (rule handles_fresh_setTimeout)
  then show ?thesis
    by (rule handles_fresh_same) (simp_all add: FeedingLog_settle_handles True)
next
  case False
  show ?thesis
    by (rule handles_fresh_same [OF assms]) (simp_all only: FeedingLog_settle_handles False if_False append_Nil2)
qed

lemma handles_fresh_FeedingLog_step:
  assumes "handles_fresh s"
  shows "handles_fresh (FeedingLog_step ev s)"
proof (cases ev)
  case (SetEditingId i)
  then show ?thesis by (simp add: handles_fresh_same [OF assms])
next
  case (KeyDown key tx feeding f)
  have "handles_fresh (s\<lparr>focusedInput := Some (feeding, f, tx)\<rparr>)"
    by (rule handles_fresh_same [OF assms]) simp_all
  then have "handles_fresh (FeedingLog_handleKeyDown key tx feeding f
                             (s\<lparr>focusedInput := Some (feeding, f, tx)\<rparr>))"
    by (rule handles_fresh_FeedingLog_handleKeyDown)
  then have "handles_fresh (FeedingLog_step (KeyDown key tx feeding f) s)"
    by (rule handles_fresh_same) (simp_all add: Let_def)
  then show ?thesis using KeyDown by simp
next
  case (TriggerKeyDown key)
  have "handles_fresh (FeedingLog_step (TriggerKeyDown key) s)"
    by (rule handles_fresh_same [OF assms]) (simp_all add: FeedingLog_SelectTrigger_onKeyDown_def)
  then show ?thesis using TriggerKeyDown by simp
next
  case (Blur feeding f tx)
  then show ?thesis by (simp add: handles_fresh_same [OF assms])
next
  case (ValueChange feeding v)
  have "handles_fresh (FeedingLog_handleInlineEdit feeding ''feedingType'' (JString v)
                         (s\<lparr>focusedInput := None\<rparr>))"
    by (rule handles_fresh_same [OF assms]) simp_all
  then show ?thesis
    using ValueChange by (simp add: handles_fresh_setTimeout)
next
  case (CardValueChange feeding v)
  then show ?thesis by (simp add: handles_fresh_same [OF assms])
next
  case (MouseDown doc outside)
  then show ?thesis by (simp add: handles_fresh_same [OF assms])
next
  case (FeedingSettle k ok)
  then show ?thesis using assms by (simp add: handles_fresh_FeedingLog_settle)
next
  case (FeedingElapse d)
  then show ?thesis using assms by (simp add: handles_fresh_elapse)
next
  case (FeedingRefetched rs)
  then show ?thesis by (simp add: handles_fresh_same [OF assms])
next
  case (Focus feeding f tx)
  have "handles_fresh (FeedingLog_step (Focus feeding f tx) s)"
    by (rule handles_fresh_same [OF assms])
       (simp_all add: Let_def split: option.splits prod.splits)
  then show ?thesis using Focus by simp
next
  case (Resize wide)
  then show ?thesis by (simp add: handles_fresh_same [OF assms])
qed

lemma handles_fresh_FeedingLog_run:
  "handles_fresh s \<Longrightarrow> handles_fresh (FeedingLog_run evs s)"
  unfolding FeedingLog_run_def
  by (induction evs arbitrary: s) (simp_all add: handles_fresh_FeedingLog_step)

section \<open>The handlers of the sleep table, field by field\<close>

lemma SleepLog_handleInlineEdit_fields [simp]:
  "timers (SleepLog_handleInlineEdit sleep f v s)
   = (case editTimeoutRef s of
        Some h \<Rightarrow> filter (\<lambda>t. timer_handle t \<noteq> h) (timers s)
      | None \<Rightarrow> timers s)
     @ [\<lparr>timer_handle = nextHandle s, timer_due = clock s + 500,
         timer_cb = Commit (sleep_id sleep) f v\<rparr>]"
  "nextHandle (SleepLog_handleInlineEdit sleep f v s) = Suc (nextHandle s)"
  "clock (SleepLog_handleInlineEdit sleep f v s) = clock s"
  "requests (SleepLog_handleInlineEdit sleep f v s) = requests s"
  "editTimeoutRef (SleepLog_handleInlineEdit sleep f v s) = Some (nextHandle s)"
  "inFlight (SleepLog_handleInlineEdit sleep f v s) = inFlight s"
  "highlightedField (SleepLog_handleInlineEdit sleep f v s) = highlightedField s"
  "rows (SleepLog_handleInlineEdit sleep f v s) = rows s"
  by (simp_all add: SleepLog_handleInlineEdit_def Let_def setTimeout_def clearTimeout_def
      split: option.splits)

lemma SleepLog_handleClickOutside_fields [simp]:
  "timers (SleepLog_handleClickOutside outside s)
   = (case (outside, editTimeoutRef s) of
        (True, Some h) \<Rightarrow> filter (\<lambda>t. timer_handle t \<noteq> h) (timers s)
      | _ \<Rightarrow> timers s)"
  "nextHandle (SleepLog_handleClickOutside outside s) = nextHandle s"
  "clock (SleepLog_handleClickOutside outside s) = clock s"
  "requests (SleepLog_handleClickOutside outside s) = requests s"
  "editTimeoutRef (SleepLog_handleClickOutside outside s)
   = (if outside then None else editTimeoutRef s)"
  "editingId (SleepLog_handleClickOutside outside s)
   = (if outside then None else editingId s)"
  by (simp_all add: SleepLog_handleClickOutside_def Let_def split: option.splits)

lemma SleepLog_settle_fields:
  "timers (SleepLog_settle k ok s)
   = timers s @ (if ok \<and> currentMutation s = Some k \<and> find (\<lambda>m. mut_key m = k) (inFlight s) \<noteq> None
                 then [\<lparr>timer_handle = nextHandle s, timer_due = clock s + 1000,
                         timer_cb = ClearHighlight\<rparr>]
                 else [])"
  "nextHandle (SleepLog_settle k ok s)
   = (if ok \<and> currentMutation s = Some k \<and> find (\<lambda>m. mut_key m = k) (inFlight s) \<noteq> None
      then Suc (nextHandle s) else nextHandle s)"
  "editTimeoutRef (SleepLog_settle k ok s) = editTimeoutRef s"
  "requests (SleepLog_settle k ok s) = requests s"
  "clock (SleepLog_settle k ok s) = clock s"
  by (simp_all add: SleepLog_settle_def Let_def SleepLog_updateMutation_onSuccess_def
      SleepLog_updateMutation_onError_def SleepLog_handleInlineEdit_onSuccess_def
      split: option.splits)

text \<open>The timers a new edit leaves armed beside its own dispatch no commit.\<close>

lemma kept_timers_no_commit:
  assumes "commit_held s"
      and "t \<in> set (case editTimeoutRef s of
                        Some h \<Rightarrow> filter (\<lambda>t. timer_handle t \<noteq> h) (timers s)
                      | None \<Rightarrow> timers s)"
  shows "commitOf (timer_cb t) = []"
  using assms by (auto simp: commit_held_def list_all_iff split: option.splits)

lemma handles_fresh_SleepLog_handleInlineEdit:
  assumes "handles_fresh s"
  shows "handles_fresh (SleepLog_handleInlineEdit sleep f v s)"
proof -
  let ?s1 = "case editTimeoutRef s of Some h \<Rightarrow> clearTimeout h s | None \<Rightarrow> s"
  have "handles_fresh ?s1"
    using assms by (auto split: option.splits intro: handles_fresh_filter [OF assms])
  then have "handles_fresh (snd (setTimeout (Commit (sleep_id sleep) f v) 500 ?s1))"
    by (rule handles_fresh_setTimeout)
  then show ?thesis
    by (rule handles_fresh_same) (simp_all split: option.splits)
qed

lemma commit_held_SleepLog_handleInlineEdit:
  assumes "commit_held s"
  shows "commit_held (SleepLog_handleInlineEdit sleep f v s)"
  using kept_timers_no_commit [OF assms]
  by (simp add: commit_held_def list_all_iff)

lemma pendingCommits_SleepLog_handleInlineEdit:
  assumes "commit_held s"
  shows "pendingCommits (SleepLog_handleInlineEdit sleep f v s) = [(sleep_id sleep, f, v)]"
proof -
  have "concat (map (\<lambda>t. commitOf (timer_cb t))
          (case editTimeoutRef s of
             Some h \<Rightarrow> filter (\<lambda>t. timer_handle t \<noteq> h) (timers s)
           | None \<Rightarrow> timers s)) = []"
    using kept_timers_no_commit [OF assms] by (intro concat_map_empty) blast
  then show ?thesis
    by (simp add: pendingCommits_def)
qed

lemma commit_held_SleepLog_handleClickOutside:
  assumes "commit_held s"
  shows "commit_held (SleepLog_handleClickOutside outside s)"
  using assms by (auto simp: commit_held_def list_all_iff split: option.splits)

lemma pendingCommits_SleepLog_handleClickOutside:
  assumes "commit_held s"
  shows "pendingCommits (SleepLog_handleClickOutside True s) = []"
  unfolding pendingCommits_def
  using assms
  by (intro concat_map_empty) (auto simp: commit_held_def list_all_iff split: option.splits)

lemma handles_fresh_SleepLog_handleClickOutside:
  assumes "handles_fresh s"
  shows "handles_fresh (SleepLog_handleClickOutside outside s)"
proof (cases "outside \<and> editTimeoutRef s \<noteq> None")
  case True
  then obtain h where "editTimeoutRef s = Some h" by auto
  then show ?thesis
    using True by (intro handles_fresh_filter [OF assms, of _ "\<lambda>t. timer_handle t \<noteq> h"]) simp_all
next
  case False
  then show ?thesis
    by (intro handles_fresh_same [OF assms]) (auto split: option.splits bool.splits)
qed

lemma handles_fresh_SleepLog_settle:
  assumes "handles_fresh s"
  shows "handles_fresh (SleepLog_settle k ok s)"
proof (cases "ok \<and> currentMutation s = Some k \<and> find (\<lambda>m. mut_key m = k) (inFlight s) \<noteq> None")
  case True
  have "handles_fresh (snd (setTimeout ClearHighlight 1000 s))"
    using assms by (rule handles_fresh_setTimeout)
  then show ?thesis
    by (rule handles_fresh_same) (simp_all add: SleepLog_settle_fields True)
next
  case False
  show ?thesis
    by (rule handles_fresh_same [OF assms])
       (simp_all only: SleepLog_settle_fields False if_False append_Nil2)
qed

lemma commit_held_SleepLog_settle:
  assumes "commit_held s"
  shows "commit_held (SleepLog_settle k ok s)"
  using assms by (simp add: commit_held_def SleepLog_settle_fields)

lemma commit_held_elapse:
  assumes "handles_fresh s" and "commit_held s"
  shows "commit_held (elapse SleepLog_fire d s)"
proof -
  have d: "distinct (map timer_handle (timers s))"
    using assms(1) by (simp add: handles_fresh_def)
  let ?due = "dueTimers (clock s + d) (timers s)"
  have ts: "timers (elapse SleepLog_fire d s) = filter (\<lambda>t. clock s + d < timer_due t) (timers s)"
    by (rule elapse_timers [OF _ d]) simp
  show ?thesis
  proof (cases "concat (map (\<lambda>x. commitOf (timer_cb x)) ?due) = []")
    case True
    then show ?thesis
      using assms(2)
      by (simp add: commit_held_def ts elapse_Sleep_editTimeoutRef [OF d] list_all_iff)
  next
    case False
    then obtain x where x: "x \<in> set (timers s)" "timer_due x \<le> clock s + d"
        and cx: "commitOf (timer_cb x) \<noteq> []"
      by auto
    have hx: "editTimeoutRef s = Some (timer_handle x)"
      using assms(2) x(1) cx by (auto simp: commit_held_def list_all_iff)
    have "commitOf (timer_cb t) = []" if t: "t \<in> set (timers s)" "clock s + d < timer_due t" for t
    proof (rule ccontr)
      assume "commitOf (timer_cb t) \<noteq> []"
      then have "editTimeoutRef s = Some (timer_handle t)"
        using assms(2) t(1) by (auto simp: commit_held_def list_all_iff)
      then have "timer_handle t = timer_handle x"
        using hx by simp
      then have "t = x"
        by (rule handle_eq_in_distinct [OF d t(1) x(1)])
      then show False
        using t(2) x(2) by simp
    qed
    then show ?thesis
      by (simp add: commit_held_def ts list_all_iff)
  qed
qed

lemma SleepLog_step_inv:
  assumes "handles_fresh s \<and> commit_held s"
  shows "handles_fresh (SleepLog_step ev s) \<and> commit_held (SleepLog_step ev s)"
proof (cases ev)
  case (InlineEdit sleep f v)
  then show ?thesis
    using assms
    by (simp add: handles_fresh_SleepLog_handleInlineEdit commit_held_SleepLog_handleInlineEdit)
next
  case (ClickOutside outside)
  then show ?thesis
    using assms
    by (simp add: handles_fresh_SleepLog_handleClickOutside commit_held_SleepLog_handleClickOutside)
next
  case (Settle k ok)
  then show ?thesis
    using assms by (simp add: handles_fresh_SleepLog_settle commit_held_SleepLog_settle)
next
  case (Elapse d)
  then show ?thesis
    using assms by (simp add: handles_fresh_elapse commit_held_elapse)
next
  case (Refetched rs)
  then show ?thesis
    using assms by (simp add: handles_fresh_def commit_held_def)
qed

lemma SleepLog_run_inv:
  "handles_fresh s \<and> commit_held s
   \<Longrightarrow> handles_fresh (SleepLog_run evs s) \<and> commit_held (SleepLog_run evs s)"
  unfolding SleepLog_run_def
proof (induction evs arbitrary: s)
  case Nil
  then show ?case by simp
next
  case (Cons ev evs)
  show ?case
    using Cons.IH [OF SleepLog_step_inv [OF Cons.prems]] by simp
qed

lemma SleepLog_reachable_inv:
  "handles_fresh (SleepLog_run evs (mounted rs))" "commit_held (SleepLog_run evs (mounted rs))"
proof -
  have "handles_fresh (mounted rs :: Sleep table) \<and> commit_held (mounted rs :: Sleep table)"
    by (simp add: handles_fresh_def commit_held_def mounted_def)
  then show "handles_fresh (SleepLog_run evs (mounted rs))"
    and "commit_held (SleepLog_run evs (mounted rs))"
    using SleepLog_run_inv by blast+
qed

text \<open>At most one commit is pending.\<close>

lemma pendingCommits_le_1:
  assumes "handles_fresh s" and "commit_held s"
  shows "length (pendingCommits s) \<le> 1"
proof (cases "\<exists>x\<in>set (timers s). commitOf (timer_cb x) \<noteq> []")
  case True
  then obtain x where x: "x \<in> set (timers s)" and cx: "commitOf (timer_cb x) \<noteq> []"
    by blast
  have d: "distinct (map timer_handle (timers s))"
    using assms(1) by (simp add: handles_fresh_def)
  have hx: "editTimeoutRef s = Some (timer_handle x)"
    using assms(2) x cx by (auto simp: commit_held_def list_all_iff)
  have "commitOf (timer_cb y) = []" if "y \<in> set (timers s)" "y \<noteq> x" for y
  proof (rule ccontr)
    assume "commitOf (timer_cb y) \<noteq> []"
    then have "editTimeoutRef s = Some (timer_handle y)"
      using assms(2) that(1) by (auto simp: commit_held_def list_all_iff)
    then have "timer_handle y = timer_handle x"
      using hx by simp
    then have "y = x"
      by (rule handle_eq_in_distinct [OF d that(1) x])
    then show False
      using that(2) by simp
  qed
  then have "pendingCommits s = commitOf (timer_cb x)"
    unfolding pendingCommits_def
    by (intro concat_map_single distinct_handles_distinct [OF d] x)
  then show ?thesis
    by (cases "timer_cb x") simp_all
next
  case False
  then have "pendingCommits s = []"
    unfolding pendingCommits_def by (intro concat_map_empty) blast
  then show ?thesis by simp
qed

text \<open>What falls due after an edit: nothing that dispatches before 500 ms, the edit itself
  from 500 ms on.\<close>

lemma due_after_edit:
  assumes "handles_fresh s" and "commit_held s"
  shows "concat (map (\<lambda>x. commitOf (timer_cb x))
           (dueTimers (clock s + d) (timers (SleepLog_handleInlineEdit sleep f v s))))
         = (if d < 500 then [] else [(sleep_id sleep, f, v)])"
proof -
  let ?kept = "case editTimeoutRef s of
                 Some h \<Rightarrow> filter (\<lambda>t. timer_handle t \<noteq> h) (timers s)
               | None \<Rightarrow> timers s"
  let ?new = "\<lparr>timer_handle = nextHandle s, timer_due = clock s + 500,
               timer_cb = Commit (sleep_id sleep) f v\<rparr>"
  let ?s1 = "SleepLog_handleInlineEdit sleep f v s"
  have ts: "timers ?s1 = ?kept @ [?new]"
    by simp
  have kept: "commitOf (timer_cb t) = []" if "t \<in> set ?kept" for t
    using kept_timers_no_commit [OF assms(2) that] .
  have d1: "distinct (timers ?s1)"
    using handles_fresh_SleepLog_handleInlineEdit [OF assms(1), of sleep f v]
    by (simp only: handles_fresh_def distinct_handles_distinct)
  show ?thesis
  proof (cases "d < 500")
    case True
    have "concat (map (\<lambda>x. commitOf (timer_cb x)) (dueTimers (clock s + d) (timers ?s1))) = []"
    proof (rule concat_map_empty)
      fix x assume "x \<in> set (dueTimers (clock s + d) (timers ?s1))"
      then have "x \<in> set ?kept"
        using True by (auto simp: ts)
      then show "commitOf (timer_cb x) = []"
        by (rule kept)
    qed
    then show ?thesis
      using True by simp
  next
    case False
    have "concat (map (\<lambda>x. commitOf (timer_cb x)) (dueTimers (clock s + d) (timers ?s1)))
          = commitOf (timer_cb ?new)"
    proof (rule concat_map_single)
      show "distinct (dueTimers (clock s + d) (timers ?s1))"
        using d1 by (rule dueTimers_distinct)
      show "?new \<in> set (dueTimers (clock s + d) (timers ?s1))"
        using False by (simp add: ts)
      fix y assume "y \<in> set (dueTimers (clock s + d) (timers ?s1))" and "y \<noteq> ?new"
      then have "y \<in> set ?kept"
        by (auto simp: ts)
      then show "commitOf (timer_cb y) = []"
        by (rule kept)
    qed
    then show ?thesis
      using False by simp
  qed
qed

lemma requests_after_edit:
  assumes "handles_fresh s" and "commit_held s"
  shows "requests (elapse SleepLog_fire d (SleepLog_handleInlineEdit sleep f v s))
         = requests s @ (if d < 500 then [] else [(sleep_id sleep, f, v)])"
proof -
  have "distinct (map timer_handle (timers (SleepLog_handleInlineEdit sleep f v s)))"
    using handles_fresh_SleepLog_handleInlineEdit [OF assms(1), of sleep f v]
    by (simp only: handles_fresh_def)
  then show ?thesis
    using due_after_edit [OF assms, of d sleep f v]
    by (simp add: elapse_Sleep_requests)
qed

section \<open>The duration calculator\<close>




text \<open>
  Claim C2, as stated, fails in its instance: start 22:00 and end 06:00 for night sleep do
  not always give 480 minutes. With the two clock readings 00:00:59.999 and 00:01:00.000
  the preview computes 479 minutes and shows 7 h 59 m; in a zone whose clocks go from 02:00
  to 03:00 in that night it computes the 420 minutes that pass and shows 7 h 0 m (both
  still within the recommended range).
\<close>

theorem C2_counterexample:
  "elapsedMinutes (fixedZone 0) 59999 60000 ''22:00'' ''06:00'' = Some 479 \<and>
   calculateDuration (fixedZone 0) 59999 60000
     \<lparr>form_date = None, form_startTime = ''22:00'', form_endTime = ''06:00'',
      form_sleepType = night, form_notes = []\<rparr>
   = \<lparr>dur_hours = Some 7, dur_remainingMinutes = Some 59, dur_class = WithinRecommended\<rparr> \<and>
   elapsedMinutes (changingZone 93600000 0 3600000) 43200000 43200000 ''22:00'' ''06:00''
     = Some 420 \<and>
   calculateDuration (changingZone 93600000 0 3600000) 43200000 43200000
     \<lparr>form_date = None, form_startTime = ''22:00'', form_endTime = ''06:00'',
      form_sleepType = night, form_notes = []\<rparr>
   = \<lparr>dur_hours = Some 7, dur_remainingMinutes = Some 0, dur_class = WithinRecommended\<rparr>"
proof -
  have a: "elapsedMinutes (fixedZone 0) 59999 60000 ''22:00'' ''06:00'' = Some 479"
    using elapsedMinutes_formatClock [of 22 0 6 0 "fixedZone 0" 59999 60000]
    by (simp add: formatClock_22_00 formatClock_06_00 fixedZone_def truncDiv_def)
  have b: "elapsedMinutes (changingZone 93600000 0 3600000) 43200000 43200000 ''22:00'' ''06:00''
           = Some 420"
    using elapsedMinutes_formatClock [of 22 0 6 0 "changingZone 93600000 0 3600000" 43200000 43200000]
    by (simp add: formatClock_22_00 formatClock_06_00 changingZone_def truncDiv_def)
  show ?thesis
    by (simp add: calculateDuration_def a b durationClass_Some jsRem_def truncDiv_def)
qed

text \<open>
  Claim C2, amended. The preview classifies the minutes it computed against the fixed range
  of the sleep type, nap 20 to 180 and night 420 to 780, both ends included: whenever the
  minutes are a number \<open>n\<close>, the preview shows \<open>n div 60\<close> hours and the remaining minutes,
  in the below-recommended class exactly when \<open>n\<close> is below the minimum of the type, in the
  above-recommended class exactly when \<open>n\<close> is above the maximum, and in the
  within-recommended class exactly when \<open>n\<close> is in between, the two boundary values
  included. Start 22:00 and end 06:00 for night sleep give 480 minutes (8 h 0 m), shown as
  within the recommended range, when the second clock reading is not before the first, both
  fall in the same minute of local time, and the time zone keeps one offset throughout the
  local day of the readings and the day after.
\<close>

theorem C2_classification:
  "recommendedDurations nap = \<lparr>rmin = 20, rmax = 180\<rparr> \<and>
   recommendedDurations night = \<lparr>rmin = 420, rmax = 780\<rparr> \<and>
   (elapsedMinutes z now1 now2 (form_startTime form) (form_endTime form) = Some n \<longrightarrow>
      calculateDuration z now1 now2 form
        = \<lparr>dur_hours = Some (n div 60), dur_remainingMinutes = Some (jsRem n 60),
           dur_class = (if n < rmin (recommendedDurations (form_sleepType form))
                        then BelowRecommended
                        else if rmax (recommendedDurations (form_sleepType form)) < n
                        then AboveRecommended
                        else WithinRecommended)\<rparr> \<and>
      (dur_class (calculateDuration z now1 now2 form) = BelowRecommended)
        = (n < rmin (recommendedDurations (form_sleepType form))) \<and>
      (dur_class (calculateDuration z now1 now2 form) = AboveRecommended)
        = (rmax (recommendedDurations (form_sleepType form)) < n) \<and>
      (dur_class (calculateDuration z now1 now2 form) = WithinRecommended)
        = (rmin (recommendedDurations (form_sleepType form)) \<le> n \<and>
           n \<le> rmax (recommendedDurations (form_sleepType form)))) \<and>
   (durationClass (Some n) t = BelowRecommended) = (n < rmin (recommendedDurations t)) \<and>
   (durationClass (Some n) t = AboveRecommended) = (rmax (recommendedDurations t) < n) \<and>
   (durationClass (Some n) t = WithinRecommended) =
      (rmin (recommendedDurations t) \<le> n \<and> n \<le> rmax (recommendedDurations t)) \<and>
   durationClass (Some (rmin (recommendedDurations t))) t = WithinRecommended \<and>
   durationClass (Some (rmax (recommendedDurations t))) t = WithinRecommended \<and>
   (now1 \<le> now2 \<and> (now2 + off) div msPerMinute = (now1 + off) div msPerMinute \<and>
    steadyOffset z off now1 \<longrightarrow>
      elapsedMinutes z now1 now2 ''22:00'' ''06:00'' = Some 480 \<and>
      calculateDuration z now1 now2
        \<lparr>form_date = d, form_startTime = ''22:00'', form_endTime = ''06:00'',
         form_sleepType = night, form_notes = notes\<rparr>
      = \<lparr>dur_hours = Some 8, dur_remainingMinutes = Some 0, dur_class = WithinRecommended\<rparr>)"
proof -
  have ranges: "recommendedDurations nap = \<lparr>rmin = 20, rmax = 180\<rparr>"
    "recommendedDurations night = \<lparr>rmin = 420, rmax = 780\<rparr>"
    by simp_all
  have below: "(durationClass (Some n) t = BelowRecommended) = (n < rmin (recommendedDurations t))"
    for t
    using classes_distinct by (simp add: durationClass_Some)
  have above: "(durationClass (Some n) t = AboveRecommended) = (rmax (recommendedDurations t) < n)"
    for t
    using classes_distinct range_ordered [of t] by (auto simp: durationClass_Some)
  have within: "(durationClass (Some n) t = WithinRecommended) =
      (rmin (recommendedDurations t) \<le> n \<and> n \<le> rmax (recommendedDurations t))" for t
    using classes_distinct by (auto simp: durationClass_Some)
  have lo: "durationClass (Some (rmin (recommendedDurations t))) t = WithinRecommended"
    using range_ordered [of t] by (simp add: durationClass_Some)
  have hi: "durationClass (Some (rmax (recommendedDurations t))) t = WithinRecommended"
    using range_ordered [of t] by (simp add: durationClass_Some)
  have preview:
     "calculateDuration z now1 now2 form
        = \<lparr>dur_hours = Some (n div 60), dur_remainingMinutes = Some (jsRem n 60),
           dur_class = (if n < rmin (recommendedDurations (form_sleepType form))
                        then BelowRecommended
                        else if rmax (recommendedDurations (form_sleepType form)) < n
                        then AboveRecommended
                        else WithinRecommended)\<rparr> \<and>
      (dur_class (calculateDuration z now1 now2 form) = BelowRecommended)
        = (n < rmin (recommendedDurations (form_sleepType form))) \<and>
      (dur_class (calculateDuration z now1 now2 form) = AboveRecommended)
        = (rmax (recommendedDurations (form_sleepType form)) < n) \<and>
      (dur_class (calculateDuration z now1 now2 form) = WithinRecommended)
        = (rmin (recommendedDurations (form_sleepType form)) \<le> n \<and>
           n \<le> rmax (recommendedDurations (form_sleepType form)))"
    if e: "elapsedMinutes z now1 now2 (form_startTime form) (form_endTime form) = Some n"
  proof -
    have c: "dur_class (calculateDuration z now1 now2 form)
             = durationClass (Some n) (form_sleepType form)"
      by (simp add: calculateDuration_def e)
    have r: "calculateDuration z now1 now2 form
        = \<lparr>dur_hours = Some (n div 60), dur_remainingMinutes = Some (jsRem n 60),
           dur_class = (if n < rmin (recommendedDurations (form_sleepType form))
                        then BelowRecommended
                        else if rmax (recommendedDurations (form_sleepType form)) < n
                        then AboveRecommended
                        else WithinRecommended)\<rparr>"
      by (simp add: calculateDuration_def e durationClass_Some)
    have i1: "(dur_class (calculateDuration z now1 now2 form) = BelowRecommended)
        = (n < rmin (recommendedDurations (form_sleepType form)))"
      unfolding c by (rule below)
    have i2: "(dur_class (calculateDuration z now1 now2 form) = AboveRecommended)
        = (rmax (recommendedDurations (form_sleepType form)) < n)"
      unfolding c by (rule above)
    have i3: "(dur_class (calculateDuration z now1 now2 form) = WithinRecommended)
        = (rmin (recommendedDurations (form_sleepType form)) \<le> n \<and>
           n \<le> rmax (recommendedDurations (form_sleepType form)))"
      unfolding c by (rule within)
    show ?thesis
      using r i1 i2 i3 by blast
  qed
  have scenario: "elapsedMinutes z now1 now2 ''22:00'' ''06:00'' = Some 480 \<and>
      calculateDuration z now1 now2
        \<lparr>form_date = d, form_startTime = ''22:00'', form_endTime = ''06:00'',
         form_sleepType = night, form_notes = notes\<rparr>
      = \<lparr>dur_hours = Some 8, dur_remainingMinutes = Some 0, dur_class = WithinRecommended\<rparr>"
    if "now1 \<le> now2" and "(now2 + off) div msPerMinute = (now1 + off) div msPerMinute"
      and "steadyOffset z off now1"
  proof -
    have e: "elapsedMinutes z now1 now2 ''22:00'' ''06:00'' = Some 480"
      using elapsedMinutes_same_minute [of 22 0 6 0 now1 now2 off z] that
      by (simp add: formatClock_22_00 formatClock_06_00)
    show ?thesis
      by (simp add: calculateDuration_def e durationClass_Some jsRem_def truncDiv_def)
  qed
  show ?thesis
    using ranges preview below above within lo hi scenario by blast
qed

theorem C2_classification_witness:
  "dur_class (calculateDuration (fixedZone 0) 59999 60000
        \<lparr>form_date = None, form_startTime = ''22:00'', form_endTime = ''06:00'',
         form_sleepType = nap, form_notes = []\<rparr>) = AboveRecommended \<and>
   durationClass (Some 20) nap = WithinRecommended \<and>
   durationClass (Some 19) nap = BelowRecommended \<and>
   durationClass (Some 781) night = AboveRecommended \<and>
   calculateDuration (changingZone 1710054000000 (- 18000000) (- 14400000))
        1709300000123 1709300000999
        \<lparr>form_date = None, form_startTime = ''22:00'', form_endTime = ''06:00'',
         form_sleepType = night, form_notes = []\<rparr>
   = \<lparr>dur_hours = Some 8, dur_remainingMinutes = Some 0, dur_class = WithinRecommended\<rparr>"
proof -
  have e: "elapsedMinutes (fixedZone 0) 59999 60000 ''22:00'' ''06:00'' = Some 479"
    using elapsedMinutes_formatClock [of 22 0 6 0 "fixedZone 0" 59999 60000]
    by (simp add: formatClock_22_00 formatClock_06_00 fixedZone_def truncDiv_def)
  have p: "dur_class (calculateDuration (fixedZone 0) 59999 60000
        \<lparr>form_date = None, form_startTime = ''22:00'', form_endTime = ''06:00'',
         form_sleepType = nap, form_notes = []\<rparr>) = AboveRecommended"
    using C2_classification [of "fixedZone 0" 59999 60000
        "\<lparr>form_date = None, form_startTime = ''22:00'', form_endTime = ''06:00'',
          form_sleepType = nap, form_notes = []\<rparr>" 479 nap 0 None "[]"] e
    by simp
  have a: "durationClass (Some 20) nap = WithinRecommended"
    using C2_classification [of "fixedZone 0" 0 0
        "\<lparr>form_date = None, form_startTime = [], form_endTime = [],
          form_sleepType = nap, form_notes = []\<rparr>" 20 nap 0 None "[]"] by simp
  have b: "durationClass (Some 19) nap = BelowRecommended"
    using C2_classification [of "fixedZone 0" 0 0
        "\<lparr>form_date = None, form_startTime = [], form_endTime = [],
          form_sleepType = nap, form_notes = []\<rparr>" 19 nap 0 None "[]"] by simp
  have c: "durationClass (Some 781) night = AboveRecommended"
    using C2_classification [of "fixedZone 0" 0 0
        "\<lparr>form_date = None, form_startTime = [], form_endTime = [],
          form_sleepType = nap, form_notes = []\<rparr>" 781 night 0 None "[]"] by simp
  have st: "steadyOffset (changingZone 1710054000000 (- 18000000) (- 14400000)) (- 18000000)
              1709300000123"
    by (simp add: steadyOffset_def msPerDay_def offsetIs_changingZone_before)
  have d: "calculateDuration (changingZone 1710054000000 (- 18000000) (- 14400000))
        1709300000123 1709300000999
        \<lparr>form_date = None, form_startTime = ''22:00'', form_endTime = ''06:00'',
         form_sleepType = night, form_notes = []\<rparr>
     = \<lparr>dur_hours = Some 8, dur_remainingMinutes = Some 0, dur_class = WithinRecommended\<rparr>"
    using C2_classification [of "changingZone 1710054000000 (- 18000000) (- 14400000)"
        1709300000123 1709300000999
        "\<lparr>form_date = None, form_startTime = [], form_endTime = [],
          form_sleepType = nap, form_notes = []\<rparr>" 0 nap "- 18000000" None "[]"] st
    by (simp add: msPerMinute_def)
  show ?thesis
    using p a b c d by blast
qed




lemma SleepLog_run_unfold [simp]:
  "SleepLog_run (ev # evs) s = SleepLog_run evs (SleepLog_step ev s)"
  "SleepLog_run [] s = s"
  by (simp_all add: SleepLog_run_def)


section \<open>Pending commits of the sleep table\<close>

text \<open>
  Claim C3. In every state a mounted sleep table can reach, at most one commit is pending
  for a record and field (indeed for the whole table). An edit leaves exactly its own commit
  pending; it is dispatched to the update operation 500 ms later and not before. A second
  edit of the same record and field less than 500 ms after the first cancels the first:
  only the second commit is pending, nothing has been dispatched, and the second value is
  dispatched 500 ms after the second edit, the first value never. An edit in the feeding
  table is dispatched at once: the request is made by the handler itself, which arms no
  timer and lets no time pass.
\<close>

theorem C3_one_pending_commit_per_target:
  "(let s = SleepLog_run evs (mounted rs);
        s1 = SleepLog_handleInlineEdit sleep f v1 s;
        s2 = SleepLog_handleInlineEdit sleep f v2 (elapse SleepLog_fire d s1)
    in length (pendingCommits s) \<le> 1 \<and>
       length (filter (\<lambda>(i, g, w). i = r \<and> g = fld) (pendingCommits s)) \<le> 1 \<and>
       pendingCommits s1 = [(sleep_id sleep, f, v1)] \<and>
       (\<forall>d'. requests (elapse SleepLog_fire d' s1)
               = requests s @ (if d' < 500 then [] else [(sleep_id sleep, f, v1)])) \<and>
       (d < 500 \<longrightarrow>
          pendingCommits s2 = [(sleep_id sleep, f, v2)] \<and>
          requests s2 = requests s \<and>
          (\<forall>d'. requests (elapse SleepLog_fire d' s2)
                  = requests s @ (if d' < 500 then [] else [(sleep_id sleep, f, v2)])))) \<and>
   requests (FeedingLog_handleInlineEdit feeding g' w' t) = requests t @ [(feeding_id feeding, g', w')] \<and>
   timers (FeedingLog_handleInlineEdit feeding g' w' t) = timers t \<and>
   clock (FeedingLog_handleInlineEdit feeding g' w' t) = clock t"
proof -
  define s where "s = SleepLog_run evs (mounted rs)"
  define s1 where "s1 = SleepLog_handleInlineEdit sleep f v1 s"
  define s1' where "s1' = elapse SleepLog_fire d s1"
  define s2 where "s2 = SleepLog_handleInlineEdit sleep f v2 s1'"
  have inv: "handles_fresh s" "commit_held s"
    unfolding s_def by (rule SleepLog_reachable_inv)+
  have inv1: "handles_fresh s1" "commit_held s1"
    unfolding s1_def
    by (simp_all add: inv handles_fresh_SleepLog_handleInlineEdit commit_held_SleepLog_handleInlineEdit)
  have inv1': "handles_fresh s1'" "commit_held s1'"
    unfolding s1'_def by (simp_all add: inv1 handles_fresh_elapse commit_held_elapse)
  have one: "length (pendingCommits s) \<le> 1"
    by (rule pendingCommits_le_1 [OF inv])
  have "length (filter (\<lambda>(i, g, w). i = r \<and> g = fld) (pendingCommits s)) \<le> length (pendingCommits s)"
    by (rule length_filter_le)
  then have key: "length (filter (\<lambda>(i, g, w). i = r \<and> g = fld) (pendingCommits s)) \<le> 1"
    using one by (rule order_trans)
  have p1: "pendingCommits s1 = [(sleep_id sleep, f, v1)]"
    unfolding s1_def by (rule pendingCommits_SleepLog_handleInlineEdit [OF inv(2)])
  have r1: "requests (elapse SleepLog_fire d' s1)
            = requests s @ (if d' < 500 then [] else [(sleep_id sleep, f, v1)])" for d'
    unfolding s1_def by (rule requests_after_edit [OF inv])
  have p2: "pendingCommits s2 = [(sleep_id sleep, f, v2)]"
    unfolding s2_def by (rule pendingCommits_SleepLog_handleInlineEdit [OF inv1'(2)])
  have q: "requests s1' = requests s" if "d < 500"
    using r1 [of d] that by (simp add: s1'_def)
  have q2: "requests s2 = requests s" if "d < 500"
    using q [OF that] by (simp add: s2_def)
  have r2: "requests (elapse SleepLog_fire d' s2)
            = requests s @ (if d' < 500 then [] else [(sleep_id sleep, f, v2)])" if "d < 500" for d'
    using requests_after_edit [OF inv1', of d' sleep f v2] q [OF that] by (simp add: s2_def)
  have sleep_part: "length (pendingCommits s) \<le> 1 \<and>
       length (filter (\<lambda>(i, g, w). i = r \<and> g = fld) (pendingCommits s)) \<le> 1 \<and>
       pendingCommits s1 = [(sleep_id sleep, f, v1)] \<and>
       (\<forall>d'. requests (elapse SleepLog_fire d' s1)
               = requests s @ (if d' < 500 then [] else [(sleep_id sleep, f, v1)])) \<and>
       (d < 500 \<longrightarrow>
          pendingCommits s2 = [(sleep_id sleep, f, v2)] \<and>
          requests s2 = requests s \<and>
          (\<forall>d'. requests (elapse SleepLog_fire d' s2)
                  = requests s @ (if d' < 500 then [] else [(sleep_id sleep, f, v2)])))"
    using one key p1 r1 p2 q2 r2 by blast
  show ?thesis
    using sleep_part
    by (simp add: Let_def s_def s1_def s1'_def s2_def)
qed

theorem C3_one_pending_commit_per_target_witness:
  "pendingCommits (SleepLog_handleInlineEdit sleep1 ''notes'' (JString ''b'')
      (elapse SleepLog_fire 100
         (SleepLog_handleInlineEdit sleep1 ''notes'' (JString ''a'') (SleepLog_run [] (mounted [sleep1])))))
     = [(1, ''notes'', JString ''b'')] \<and>
   requests (elapse SleepLog_fire 499 (SleepLog_handleInlineEdit sleep1 ''notes'' (JString ''b'')
      (elapse SleepLog_fire 100
         (SleepLog_handleInlineEdit sleep1 ''notes'' (JString ''a'') (SleepLog_run [] (mounted [sleep1]))))))
     = [] \<and>
   requests (elapse SleepLog_fire 500 (SleepLog_handleInlineEdit sleep1 ''notes'' (JString ''b'')
      (elapse SleepLog_fire 100
         (SleepLog_handleInlineEdit sleep1 ''notes'' (JString ''a'') (SleepLog_run [] (mounted [sleep1]))))))
     = [(1, ''notes'', JString ''b'')]"
proof -
  have r: "requests (mounted [sleep1]) = []" and i: "sleep_id sleep1 = 1"
    by (simp_all add: mounted_def sleep1_def)
  have lt: "(100::nat) < 500"
    by simp
  note c3 = C3_one_pending_commit_per_target [of "[]" "[sleep1]" sleep1 "''notes''" "JString ''a''"
      "JString ''b''" 100 1 "''notes''" feeding7 "''notes''" JNull "mounted []", unfolded Let_def]
  have a: "pendingCommits (SleepLog_handleInlineEdit sleep1 ''notes'' (JString ''b'')
      (elapse SleepLog_fire 100
         (SleepLog_handleInlineEdit sleep1 ''notes'' (JString ''a'') (SleepLog_run [] (mounted [sleep1])))))
     = [(1, ''notes'', JString ''b'')]"
    using c3 lt by (simp add: i)
  have b: "requests (elapse SleepLog_fire d' (SleepLog_handleInlineEdit sleep1 ''notes'' (JString ''b'')
      (elapse SleepLog_fire 100
         (SleepLog_handleInlineEdit sleep1 ''notes'' (JString ''a'') (SleepLog_run [] (mounted [sleep1]))))))
     = (if d' < 500 then [] else [(1, ''notes'', JString ''b'')])" for d'
    using c3 lt by (simp add: i r)
  show ?thesis
    using a b [of 499] b [of 500] by simp
qed

text \<open>
  Claim C4, as stated, fails: with a commit for the notes of record 1 pending, an edit of
  the notes of record 2 cancels it. Only the commit for record 2 is pending afterwards, and
  it is the only one ever dispatched.
\<close>

theorem C4_counterexample:
  "pendingCommits (SleepLog_run [InlineEdit sleep1 ''notes'' (JString ''a'')] (mounted [sleep1, sleep2]))
     = [(1, ''notes'', JString ''a'')] \<and>
   pendingCommits (SleepLog_run [InlineEdit sleep1 ''notes'' (JString ''a''),
                                 InlineEdit sleep2 ''notes'' (JString ''b'')] (mounted [sleep1, sleep2]))
     = [(2, ''notes'', JString ''b'')] \<and>
   requests (SleepLog_run [InlineEdit sleep1 ''notes'' (JString ''a''),
                           InlineEdit sleep2 ''notes'' (JString ''b''), Elapse 60000]
               (mounted [sleep1, sleep2]))
     = [(2, ''notes'', JString ''b'')]"
  by (simp add: mounted_def sleep1_def sleep2_def elapse_def dueTimers_def
      fireTimer_def fireNow_def pendingCommits_def Let_def)

text \<open>
  Claim C4, amended. The sleep table holds one timer handle for the whole table: in every
  reachable state at most one commit is pending, and an edit of any record and field
  cancels the pending commit whatever its target, so that only the new commit is pending.
  An edit cancels nothing that was already dispatched: updates of different records can be
  in flight together, as after the edits of records 1 and 2 each followed by 500 ms.
\<close>

theorem C4_one_timer_for_the_table:
  "(let s = SleepLog_run evs (mounted rs);
        s1 = SleepLog_handleInlineEdit sleep f v s
    in length (pendingCommits s) \<le> 1 \<and>
       pendingCommits s1 = [(sleep_id sleep, f, v)] \<and>
       requests s1 = requests s \<and>
       inFlight s1 = inFlight s) \<and>
   map (\<lambda>m. (mut_id m, mut_field m))
     (inFlight (SleepLog_run [InlineEdit sleep1 ''notes'' (JString ''a''), Elapse 500,
                              InlineEdit sleep2 ''notes'' (JString ''b''), Elapse 500]
                  (mounted [sleep1, sleep2])))
   = [(1, ''notes''), (2, ''notes'')]"
proof -
  define s where "s = SleepLog_run evs (mounted rs)"
  have inv: "handles_fresh s" "commit_held s"
    unfolding s_def by (rule SleepLog_reachable_inv)+
  have one: "length (pendingCommits s) \<le> 1"
    by (rule pendingCommits_le_1 [OF inv])
  have p1: "pendingCommits (SleepLog_handleInlineEdit sleep f v s) = [(sleep_id sleep, f, v)]"
    by (rule pendingCommits_SleepLog_handleInlineEdit [OF inv(2)])
  have two: "map (\<lambda>m. (mut_id m, mut_field m))
     (inFlight (SleepLog_run [InlineEdit sleep1 ''notes'' (JString ''a''), Elapse 500,
                              InlineEdit sleep2 ''notes'' (JString ''b''), Elapse 500]
                  (mounted [sleep1, sleep2])))
   = [(1, ''notes''), (2, ''notes'')]"
    by (simp add: mounted_def sleep1_def sleep2_def elapse_def dueTimers_def
        fireTimer_def fireNow_def Let_def)
  show ?thesis
    using one p1 two by (simp add: Let_def s_def)
qed

theorem C4_one_timer_for_the_table_witness:
  "pendingCommits (SleepLog_handleInlineEdit sleep2 ''notes'' (JString ''b'')
      (SleepLog_run [InlineEdit sleep1 ''sleepType'' (JString ''night'')] (mounted [sleep1, sleep2])))
   = [(2, ''notes'', JString ''b'')]"
  using C4_one_timer_for_the_table [of "[InlineEdit sleep1 ''sleepType'' (JString ''night'')]"
      "[sleep1, sleep2]" sleep2 "''notes''" "JString ''b''"]
  by (simp add: Let_def sleep2_def)

lemma FeedingLog_run_unfold [simp]:
  "FeedingLog_run (ev # evs) s = FeedingLog_run evs (FeedingLog_step ev s)"
  "FeedingLog_run [] s = s"
  by (simp_all add: FeedingLog_run_def)

lemma parseInt_45: "parseInt ''45'' = JNumber 45"
  by code_simp

lemma parseInt_50: "parseInt ''50'' = JNumber 50"
  by code_simp

lemma parseInt_not_string: "parseInt txt \<noteq> JString v"
  by (simp add: parseInt_def Let_def split: prod.splits)

lemma find_filter_head: "find P xs = Some x \<Longrightarrow> \<exists>ys. filter P xs = x # ys"
  by (induction xs) (auto split: if_splits)

lemma find_Some_holds: "find P xs = Some x \<Longrightarrow> P x"
  by (induction xs) (auto split: if_splits)

section \<open>The focus after Tab\<close>

lemma natToString_20: "natToString 20 = ''20''"
  by code_simp

lemma numberToString_4: "numberToString 4 = ''4''"
  by code_simp

text \<open>Tab in the duration input of record 7, holding the new text 45, commits the text,
  and the timer it arms moves the focus to the amount input: the duration input gets the
  blur event and commits a second time, now the parsed number. On a narrow viewport the
  element the selector finds is not displayed, the focus stays, and there is one commit.\<close>

lemma Tab_commits_again_on_focus:
  "requests (FeedingLog_run [SetEditingId (Some 7), KeyDown ''Tab'' ''45'' feeding7 ''duration'',
                             FeedingElapse 0] (mounted [feeding7]))
   = [(7, ''duration'', JString ''45''), (7, ''duration'', JNumber 45)]"
  "focusedInput (FeedingLog_run [SetEditingId (Some 7), KeyDown ''Tab'' ''45'' feeding7 ''duration'',
                                 FeedingElapse 0] (mounted [feeding7]))
   = Some (feeding7, ''amount'', ''4'')"
  "requests (FeedingLog_run [Resize False, SetEditingId (Some 7),
                             KeyDown ''Tab'' ''45'' feeding7 ''duration'', FeedingElapse 0]
               (mounted [feeding7]))
   = [(7, ''duration'', JString ''45'')]"
  by (simp_all add: mounted_def feeding7_def FeedingLog_handleKeyDown_def keyedValue_def
      fieldText_def nextField_def editableFields_def jsRem_def truncDiv_def
      FeedingLog_focus_def FeedingLog_onBlur_def parseInt_45 natToString_20 numberToString_4
      elapse_def dueTimers_def fireTimer_def fireNow_def Let_def)

section \<open>Failure of an update\<close>

text \<open>
  Claim C5, as stated, fails: record 7 is being edited, Enter in its duration input
  dispatches the commit, the update operation rejects, and \<open>editingId\<close> is still 7
  afterwards: the failure has not returned the table to Idle.
\<close>

theorem C5_counterexample:
  "editingId (FeedingLog_run [SetEditingId (Some 7), KeyDown ''Enter'' ''45'' feeding7 ''duration'',
                              FeedingSettle 0 False] (mounted [feeding7])) = Some 7"
  by (simp add: mounted_def feeding7_def FeedingLog_handleKeyDown_def FeedingLog_settle_def
      keyedValue_def FeedingLog_updateMutation_onError_def FeedingLog_handleInlineEdit_onError_def
      Let_def)

text \<open>
  Claim C5, amended. When the update operation rejects a commit of the feeding table, a
  failure notice is shown (a second one, and the saving indicator cleared, when the commit
  is the latest one dispatched); the list of records is not touched and no refresh of it is
  requested, so the field shows what it showed before; nothing more is dispatched, no
  highlight is set and no timer armed. \<open>editingId\<close> is left as it was: the failure does not
  put the table back to Idle, and a row being edited stays in edit mode.
\<close>

theorem C5_update_failure:
  assumes "find (\<lambda>m. mut_key m = k) (inFlight s) = Some m"
  shows "(let s' = FeedingLog_settle k False s in
          toasts s' =
            toasts s
            @ [\<lparr>toast_title = Some ''Error'', toast_description = ''Failed to update feeding log'',
                 toast_destructive = True, toast_duration = None\<rparr>]
            @ (if currentMutation s = Some k
               then [\<lparr>toast_title = Some ''Error'', toast_description = ''Failed to save changes'',
                       toast_destructive = True, toast_duration = None\<rparr>]
               else []) \<and>
          rows s' = rows s \<and>
          invalidations s' = invalidations s \<and>
          requests s' = requests s \<and>
          editingId s' = editingId s \<and>
          savingField s' = (if currentMutation s = Some k then None else savingField s) \<and>
          highlightedField s' = highlightedField s \<and>
          timers s' = timers s)"
  using assms
  by (simp add: FeedingLog_settle_def FeedingLog_updateMutation_onError_def
      FeedingLog_handleInlineEdit_onError_def Let_def showToast_def)

theorem C5_update_failure_witness:
  "map toast_description
     (toasts (FeedingLog_settle 0 False
        (FeedingLog_run [SetEditingId (Some 7), KeyDown ''Enter'' ''45'' feeding7 ''duration'']
           (mounted [feeding7]))))
   = [''Failed to update feeding log'', ''Failed to save changes''] \<and>
   rows (FeedingLog_settle 0 False
        (FeedingLog_run [SetEditingId (Some 7), KeyDown ''Enter'' ''45'' feeding7 ''duration'']
           (mounted [feeding7]))) = [feeding7]"
proof -
  have f: "find (\<lambda>m. mut_key m = 0)
             (inFlight (FeedingLog_run [SetEditingId (Some 7),
                                        KeyDown ''Enter'' ''45'' feeding7 ''duration'']
                          (mounted [feeding7])))
           = Some \<lparr>mut_key = 0, mut_id = 7, mut_field = ''duration'', mut_value = JString ''45''\<rparr>"
    by (simp add: mounted_def feeding7_def FeedingLog_handleKeyDown_def keyedValue_def)
  show ?thesis
    using C5_update_failure [OF f]
    by (simp add: Let_def mounted_def FeedingLog_handleKeyDown_def)
qed

section \<open>Escape\<close>

text \<open>
  Claim C6 says that Escape leaves edit mode without dispatching a commit. The code does
  leave edit mode, but in the three inputs the Escape branch of \<open>handleKeyDown\<close> also
  calls \<open>blur()\<close> on the input, whose \<open>onBlur\<close> handler commits the text typed so far:
  the update operation is called with the uncommitted value. Only on the select trigger of
  the feeding type, which has its own key handler, does Escape dispatch nothing.
\<close>

theorem C6_escape_commits_on_blur:
  "requests (FeedingLog_handleKeyDown ''Escape'' txt feeding ''duration'' s)
     = requests s @ [(feeding_id feeding, ''duration'', parseInt txt)] \<and>
   requests (FeedingLog_handleKeyDown ''Escape'' txt feeding ''amount'' s)
     = requests s @ [(feeding_id feeding, ''amount'', if txt \<noteq> [] then parseFloat txt else JNull)] \<and>
   requests (FeedingLog_handleKeyDown ''Escape'' txt feeding ''notes'' s)
     = requests s @ [(feeding_id feeding, ''notes'', JString txt)] \<and>
   editingId (FeedingLog_handleKeyDown ''Escape'' txt feeding f s) = None \<and>
   requests (FeedingLog_SelectTrigger_onKeyDown ''Escape'' s) = requests s \<and>
   editingId (FeedingLog_SelectTrigger_onKeyDown ''Escape'' s) = None"
  by (simp add: FeedingLog_handleKeyDown_def FeedingLog_onBlur_def
      FeedingLog_SelectTrigger_onKeyDown_def Let_def)

theorem C6_escape_commits_on_blur_witness:
  "requests (FeedingLog_run [SetEditingId (Some 7), KeyDown ''Escape'' ''45'' feeding7 ''duration'']
               (mounted [feeding7]))
   = [(7, ''duration'', JNumber 45)]"
  using C6_escape_commits_on_blur [of "''45''" feeding7
      "(FeedingLog_run [SetEditingId (Some 7)] (mounted [feeding7]))
         \<lparr>focusedInput := Some (feeding7, ''duration'', ''45'')\<rparr>"]
  by (simp add: parseInt_45 mounted_def feeding7_def)

section \<open>A click outside the table\<close>

text \<open>When a row is being edited, the first element of the document that carries
  \<open>data-editing\<close> is the select trigger of the feeding type of that row.\<close>

lemma FeedingLog_document_head:
  assumes "find (\<lambda>feeding. Some (feeding_id feeding) = editingId s) (rows s) = Some feeding"
  shows "\<exists>rest. FeedingLog_document tv txt focus s
           = \<lparr>el_layout = TableRow, data_field = ''feedingType'', el_value = tv,
              el_focused = (focus = Some (TableRow, ''feedingType''))\<rparr> # rest"
proof -
  have "filter (\<lambda>feeding. editingId s = Some (feeding_id feeding)) (rows s)
        = filter (\<lambda>feeding. Some (feeding_id feeding) = editingId s) (rows s)"
    by (rule filter_cong) auto
  then obtain ys where "filter (\<lambda>feeding. editingId s = Some (feeding_id feeding)) (rows s) = feeding # ys"
    using find_filter_head [OF assms] by metis
  then show ?thesis
    by (simp add: FeedingLog_document_def editingElements_def Let_def)
qed

text \<open>
  Claim C7 says that a mouse press outside the feeding table commits the value of the
  focused input. The code takes the first element of the document marked as being edited,
  which is the select trigger of the feeding type whatever holds the focus: it commits the
  trigger's value as the feeding type, and the text of the focused input is not read. The
  table then leaves edit mode. For the sleep table the claim holds: the press leaves edit
  mode, dispatches nothing, and cancels the pending commit, which is never dispatched.
\<close>

theorem C7_outside_click:
  "(find (\<lambda>feeding. Some (feeding_id feeding) = editingId t) (rows t) = Some feeding \<longrightarrow>
      requests (FeedingLog_handleClickOutside (FeedingLog_document tv txt focus t) True t)
        = requests t @ [(feeding_id feeding, ''feedingType'', JString tv)] \<and>
      editingId (FeedingLog_handleClickOutside (FeedingLog_document tv txt focus t) True t) = None) \<and>
   (let s = SleepLog_run evs (mounted rs); s' = SleepLog_handleClickOutside True s
    in editingId s' = None \<and> pendingCommits s' = [] \<and> requests s' = requests s \<and>
       (\<forall>d. requests (elapse SleepLog_fire d s') = requests s))"
proof -
  have feeding_part:
    "requests (FeedingLog_handleClickOutside (FeedingLog_document tv txt focus t) True t)
        = requests t @ [(feeding_id feeding, ''feedingType'', JString tv)] \<and>
     editingId (FeedingLog_handleClickOutside (FeedingLog_document tv txt focus t) True t) = None"
    if f: "find (\<lambda>feeding. Some (feeding_id feeding) = editingId t) (rows t) = Some feeding"
  proof -
    obtain rest where doc: "FeedingLog_document tv txt focus t
           = \<lparr>el_layout = TableRow, data_field = ''feedingType'', el_value = tv,
              el_focused = (focus = Some (TableRow, ''feedingType''))\<rparr> # rest"
      using FeedingLog_document_head [OF f] by blast
    have ed: "editingId t \<noteq> None"
      using find_Some_holds [OF f] by (cases "editingId t") simp_all
    show ?thesis
      using ed f
      by (simp add: FeedingLog_handleClickOutside_def doc querySelector_editing_def keyedValue_def
          Let_def)
  qed
  define s where "s = SleepLog_run evs (mounted rs)"
  define s' where "s' = SleepLog_handleClickOutside True s"
  have inv: "handles_fresh s" "commit_held s"
    unfolding s_def by (rule SleepLog_reachable_inv)+
  have p: "pendingCommits s' = []"
    unfolding s'_def by (rule pendingCommits_SleepLog_handleClickOutside [OF inv(2)])
  have d: "distinct (map timer_handle (timers s'))"
    using handles_fresh_SleepLog_handleClickOutside [OF inv(1), of True]
    by (simp add: handles_fresh_def s'_def)
  have none: "commitOf (timer_cb x) = []" if "x \<in> set (timers s')" for x
    using p that by (auto simp: pendingCommits_def)
  have "concat (map (\<lambda>x. commitOf (timer_cb x)) (dueTimers (clock s' + d) (timers s'))) = []" for d
    by (rule concat_map_empty) (simp add: none)
  then have r: "requests (elapse SleepLog_fire d s') = requests s" for d
    by (simp add: elapse_Sleep_requests [OF d]) (simp add: s'_def)
  have "editingId s' = None \<and> pendingCommits s' = [] \<and> requests s' = requests s \<and>
       (\<forall>d. requests (elapse SleepLog_fire d s') = requests s)"
    using p r by (simp add: s'_def)
  then show ?thesis
    using feeding_part by (simp add: Let_def s_def s'_def)
qed

theorem C7_outside_click_witness:
  "requests (FeedingLog_handleClickOutside
      (FeedingLog_document '''' (\<lambda>l f. if f = ''notes'' then ''burped'' else ''20'')
         (Some (TableRow, ''notes'')) (FeedingLog_run [SetEditingId (Some 7)] (mounted [feeding7])))
      True (FeedingLog_run [SetEditingId (Some 7)] (mounted [feeding7])))
   = [(7, ''feedingType'', JString '''')]"
proof -
  have f: "find (\<lambda>feeding. Some (feeding_id feeding)
                    = editingId (FeedingLog_run [SetEditingId (Some 7)] (mounted [feeding7])))
             (rows (FeedingLog_run [SetEditingId (Some 7)] (mounted [feeding7]))) = Some feeding7"
    by (simp add: mounted_def feeding7_def)
  show ?thesis
    using C7_outside_click [of "FeedingLog_run [SetEditingId (Some 7)] (mounted [feeding7])" feeding7
        "''''" "\<lambda>l f. if f = ''notes'' then ''burped'' else ''20''"
        "Some (TableRow, ''notes'')" "[]" "[]"] f
    by (simp add: mounted_def feeding7_def)
qed

section \<open>The highlight after a successful commit\<close>

lemma list_ex_snoc: "list_ex P (xs @ [x]) = (list_ex P xs \<or> P x)"
  by (simp add: list_ex_iff) blast

lemma FeedingLog_reachable_fresh: "handles_fresh (FeedingLog_run evs (mounted rs))"
  by (rule handles_fresh_FeedingLog_run [OF handles_fresh_mounted])

lemma FeedingLog_settle_success_fields:
  assumes "find (\<lambda>m. mut_key m = k) (inFlight s) = Some m" and "currentMutation s = Some k"
  shows "highlightedField (FeedingLog_settle k True s) = Some (mut_id m, mut_field m)"
    and "clock (FeedingLog_settle k True s) = clock s"
    and "timers (FeedingLog_settle k True s)
         = timers s @ [\<lparr>timer_handle = nextHandle s, timer_due = clock s + 1000,
                         timer_cb = ClearHighlight\<rparr>]"
  using assms by (simp_all add: FeedingLog_settle_def Let_def)

lemma SleepLog_settle_success_fields:
  assumes "find (\<lambda>m. mut_key m = k) (inFlight s) = Some m" and "currentMutation s = Some k"
  shows "highlightedField (SleepLog_settle k True s) = Some (mut_id m, mut_field m)"
    and "clock (SleepLog_settle k True s) = clock s"
    and "timers (SleepLog_settle k True s)
         = timers s @ [\<lparr>timer_handle = nextHandle s, timer_due = clock s + 1000,
                         timer_cb = ClearHighlight\<rparr>]"
  using assms
  by (simp_all add: SleepLog_settle_def Let_def SleepLog_updateMutation_onSuccess_def
      SleepLog_handleInlineEdit_onSuccess_def)

text \<open>The mark a success sets is cleared as soon as a clear-timer falls due: its own after
  1000 ms, or one armed before it.\<close>

lemma mark_lifetime:
  assumes fire_timers: "\<And>cb s. timers (fire cb s) = timers s"
      and fire_mark: "\<And>cb s. highlightedField (fire cb s)
                              = (if cb = ClearHighlight then None else highlightedField s)"
      and fresh: "handles_fresh s'"
      and mark: "highlightedField s' = Some mk"
      and clk: "clock s' = clock s"
      and ts: "timers s' = timers s @ [\<lparr>timer_handle = nextHandle s, timer_due = clock s + 1000,
                                         timer_cb = ClearHighlight\<rparr>]"
  shows "highlightedField (elapse fire d s')
         = (if 1000 \<le> d \<or> list_ex (\<lambda>x. timer_cb x = ClearHighlight \<and> timer_due x \<le> clock s + d)
                                (timers s)
            then None else Some mk)"
proof -
  have d: "distinct (map timer_handle (timers s'))"
    using fresh by (simp add: handles_fresh_def)
  show ?thesis
    unfolding elapse_highlightedField [OF fire_timers fire_mark d]
    by (auto simp: ts clk mark list_ex_snoc)
qed

text \<open>
  Claim C8, as stated, fails: a commit of the duration of record 7 succeeds at time 0 and
  another at time 600. The second success marks the field again, and the timer of the first
  mark clears the field's highlight at time 1000, 400 ms after the second mark was made.
\<close>

theorem C8_counterexample:
  "highlightedField
     (FeedingLog_run [SetEditingId (Some 7), Blur feeding7 ''duration'' ''45'', FeedingSettle 0 True,
                      FeedingElapse 600,
                      SetEditingId (Some 7), Blur feeding7 ''duration'' ''50'', FeedingSettle 1 True]
        (mounted [feeding7])) = Some (7, ''duration'') \<and>
   clock
     (FeedingLog_run [SetEditingId (Some 7), Blur feeding7 ''duration'' ''45'', FeedingSettle 0 True,
                      FeedingElapse 600,
                      SetEditingId (Some 7), Blur feeding7 ''duration'' ''50'', FeedingSettle 1 True]
        (mounted [feeding7])) = 600 \<and>
   highlightedField
     (FeedingLog_run [SetEditingId (Some 7), Blur feeding7 ''duration'' ''45'', FeedingSettle 0 True,
                      FeedingElapse 600,
                      SetEditingId (Some 7), Blur feeding7 ''duration'' ''50'', FeedingSettle 1 True,
                      FeedingElapse 400]
        (mounted [feeding7])) = None"
  by (simp add: mounted_def feeding7_def FeedingLog_onBlur_def FeedingLog_settle_def
      FeedingLog_updateMutation_onSuccess_def FeedingLog_handleInlineEdit_onSuccess_def
      parseInt_45 parseInt_50 elapse_def dueTimers_def fireTimer_def fireNow_def Let_def)

text \<open>
  Claim C8, amended. In both tables, the success of the latest commit dispatched sets the
  table's one highlight to the record and field committed and arms a timer, beside those
  already armed, that clears the highlight 1000 ms later. No timer is cancelled or replaced:
  the highlight is cleared as soon as any armed clear-timer falls due. It therefore stays
  for exactly 1000 ms when no earlier clear-timer is still armed, and is cleared earlier,
  by the timer of the earlier mark, otherwise.
\<close>

theorem C8_highlight_cleared_by_earliest_timer:
  "(let s = FeedingLog_run evs (mounted rs); s' = FeedingLog_settle k True s in
    find (\<lambda>m. mut_key m = k) (inFlight s) = Some m \<and> currentMutation s = Some k \<longrightarrow>
      highlightedField s' = Some (mut_id m, mut_field m) \<and>
      timers s' = timers s @ [\<lparr>timer_handle = nextHandle s, timer_due = clock s + 1000,
                                timer_cb = ClearHighlight\<rparr>] \<and>
      (\<forall>d. highlightedField (elapse FeedingLog_fire d s')
             = (if 1000 \<le> d \<or> list_ex (\<lambda>x. timer_cb x = ClearHighlight \<and> timer_due x \<le> clock s + d)
                                    (timers s)
                then None else Some (mut_id m, mut_field m)))) \<and>
   (let s = SleepLog_run evs' (mounted rs'); s' = SleepLog_settle k' True s in
    find (\<lambda>m. mut_key m = k') (inFlight s) = Some m' \<and> currentMutation s = Some k' \<longrightarrow>
      highlightedField s' = Some (mut_id m', mut_field m') \<and>
      timers s' = timers s @ [\<lparr>timer_handle = nextHandle s, timer_due = clock s + 1000,
                                timer_cb = ClearHighlight\<rparr>] \<and>
      (\<forall>d. highlightedField (elapse SleepLog_fire d s')
             = (if 1000 \<le> d \<or> list_ex (\<lambda>x. timer_cb x = ClearHighlight \<and> timer_due x \<le> clock s + d)
                                    (timers s)
                then None else Some (mut_id m', mut_field m'))))"
proof -
  have feeding_part:
    "highlightedField (FeedingLog_settle k True s) = Some (mut_id m, mut_field m) \<and>
     timers (FeedingLog_settle k True s)
       = timers s @ [\<lparr>timer_handle = nextHandle s, timer_due = clock s + 1000,
                       timer_cb = ClearHighlight\<rparr>] \<and>
     (\<forall>d. highlightedField (elapse FeedingLog_fire d (FeedingLog_settle k True s))
            = (if 1000 \<le> d \<or> list_ex (\<lambda>x. timer_cb x = ClearHighlight \<and> timer_due x \<le> clock s + d)
                                   (timers s)
               then None else Some (mut_id m, mut_field m)))"
    if s: "s = FeedingLog_run evs (mounted rs)"
      and f: "find (\<lambda>m. mut_key m = k) (inFlight s) = Some m" and c: "currentMutation s = Some k"
    for s
  proof -
    have fresh: "handles_fresh (FeedingLog_settle k True s)"
      unfolding s by (rule handles_fresh_FeedingLog_settle [OF FeedingLog_reachable_fresh])
    note fl = FeedingLog_settle_success_fields [OF f c]
    have "highlightedField (elapse FeedingLog_fire d (FeedingLog_settle k True s))
            = (if 1000 \<le> d \<or> list_ex (\<lambda>x. timer_cb x = ClearHighlight \<and> timer_due x \<le> clock s + d)
                                   (timers s)
               then None else Some (mut_id m, mut_field m))" for d
      by (rule mark_lifetime [OF _ _ fresh fl]) simp_all
    then show ?thesis
      using fl by blast
  qed
  have sleep_part:
    "highlightedField (SleepLog_settle k' True s) = Some (mut_id m', mut_field m') \<and>
     timers (SleepLog_settle k' True s)
       = timers s @ [\<lparr>timer_handle = nextHandle s, timer_due = clock s + 1000,
                       timer_cb = ClearHighlight\<rparr>] \<and>
     (\<forall>d. highlightedField (elapse SleepLog_fire d (SleepLog_settle k' True s))
            = (if 1000 \<le> d \<or> list_ex (\<lambda>x. timer_cb x = ClearHighlight \<and> timer_due x \<le> clock s + d)
                                   (timers s)
               then None else Some (mut_id m', mut_field m')))"
    if s: "s = SleepLog_run evs' (mounted rs')"
      and f: "find (\<lambda>m. mut_key m = k') (inFlight s) = Some m'" and c: "currentMutation s = Some k'"
    for s
  proof -
    have fresh: "handles_fresh (SleepLog_settle k' True s)"
      unfolding s by (rule handles_fresh_SleepLog_settle [OF SleepLog_reachable_inv(1)])
    note fl = SleepLog_settle_success_fields [OF f c]
    have "highlightedField (elapse SleepLog_fire d (SleepLog_settle k' True s))
            = (if 1000 \<le> d \<or> list_ex (\<lambda>x. timer_cb x = ClearHighlight \<and> timer_due x \<le> clock s + d)
                                   (timers s)
               then None else Some (mut_id m', mut_field m'))" for d
      by (rule mark_lifetime [OF _ _ fresh fl]) simp_all
    then show ?thesis
      using fl by blast
  qed
  show ?thesis
    unfolding Let_def using feeding_part sleep_part by blast
qed

theorem C8_highlight_cleared_by_earliest_timer_witness:
  "highlightedField
     (elapse FeedingLog_fire 999
        (FeedingLog_settle 0 True
           (FeedingLog_run [SetEditingId (Some 7), Blur feeding7 ''duration'' ''45'']
              (mounted [feeding7])))) = Some (7, ''duration'') \<and>
   highlightedField
     (elapse FeedingLog_fire 1000
        (FeedingLog_settle 0 True
           (FeedingLog_run [SetEditingId (Some 7), Blur feeding7 ''duration'' ''45'']
              (mounted [feeding7])))) = None"
proof -
  have f: "find (\<lambda>m. mut_key m = 0)
             (inFlight (FeedingLog_run [SetEditingId (Some 7), Blur feeding7 ''duration'' ''45'']
                          (mounted [feeding7])))
           = Some \<lparr>mut_key = 0, mut_id = 7, mut_field = ''duration'', mut_value = JNumber 45\<rparr>
           \<and> currentMutation (FeedingLog_run [SetEditingId (Some 7), Blur feeding7 ''duration'' ''45'']
                          (mounted [feeding7])) = Some 0"
    by (simp add: mounted_def feeding7_def FeedingLog_onBlur_def parseInt_45)
  note c8 = C8_highlight_cleared_by_earliest_timer [of "[SetEditingId (Some 7), Blur feeding7 ''duration'' ''45'']"
      "[feeding7]" 0 "\<lparr>mut_key = 0, mut_id = 7, mut_field = ''duration'', mut_value = JNumber 45\<rparr>"
      "[]" "[]" 0 "\<lparr>mut_key = 0, mut_id = 7, mut_field = ''duration'', mut_value = JNumber 45\<rparr>",
      unfolded Let_def, THEN conjunct1, rule_format, OF f]
  have "highlightedField
     (elapse FeedingLog_fire d
        (FeedingLog_settle 0 True
           (FeedingLog_run [SetEditingId (Some 7), Blur feeding7 ''duration'' ''45'']
              (mounted [feeding7])))) = (if 1000 \<le> d then None else Some (7, ''duration''))" for d
    using c8 by (simp add: mounted_def)
  then show ?thesis
    by simp
qed

section \<open>Coercion of the committed value\<close>

text \<open>
  Claim C9 says that every commit of the feeding table sends the duration parsed as an
  integer. Only the \<open>onBlur\<close> handler of the duration input parses it; \<open>handleKeyDown\<close>
  (Enter, and Tab when the text changed) sends the text of the input itself, which is never
  the value \<open>parseInt\<close> gives. The amount is parsed as a number, or is null for the empty
  text, on every path, and the notes are sent as text on every path.
\<close>

theorem C9_duration_sent_as_text:
  "requests (FeedingLog_handleKeyDown ''Enter'' txt feeding ''duration'' s)
     = requests s @ [(feeding_id feeding, ''duration'', JString txt)] \<and>
   (Some txt \<noteq> fieldText feeding ''duration'' \<longrightarrow>
      requests (FeedingLog_handleKeyDown ''Tab'' txt feeding ''duration'' s)
        = requests s @ [(feeding_id feeding, ''duration'', JString txt)]) \<and>
   requests (FeedingLog_onBlur feeding ''duration'' txt s)
     = requests s @ [(feeding_id feeding, ''duration'', parseInt txt)] \<and>
   JString txt \<noteq> parseInt txt \<and>
   requests (FeedingLog_handleKeyDown ''Enter'' txt feeding ''amount'' s)
     = requests s @ [(feeding_id feeding, ''amount'', if txt \<noteq> [] then parseFloat txt else JNull)] \<and>
   requests (FeedingLog_onBlur feeding ''amount'' txt s)
     = requests s @ [(feeding_id feeding, ''amount'', if txt \<noteq> [] then parseFloat txt else JNull)] \<and>
   requests (FeedingLog_handleKeyDown ''Enter'' txt feeding ''notes'' s)
     = requests s @ [(feeding_id feeding, ''notes'', JString txt)] \<and>
   requests (FeedingLog_onBlur feeding ''notes'' txt s)
     = requests s @ [(feeding_id feeding, ''notes'', JString txt)]"
  using parseInt_not_string [of "txt" "txt"]
  by (auto simp: FeedingLog_handleKeyDown_def FeedingLog_onBlur_def keyedValue_def Let_def)

theorem C9_duration_sent_as_text_witness:
  "requests (FeedingLog_run [SetEditingId (Some 7), KeyDown ''Enter'' ''45'' feeding7 ''duration'']
               (mounted [feeding7]))
     = [(7, ''duration'', JString ''45'')] \<and>
   requests (FeedingLog_run [SetEditingId (Some 7), Blur feeding7 ''duration'' ''45'']
               (mounted [feeding7]))
     = [(7, ''duration'', JNumber 45)]"
  using C9_duration_sent_as_text [of "''45''" feeding7
      "(FeedingLog_run [SetEditingId (Some 7)] (mounted [feeding7]))
         \<lparr>focusedInput := Some (feeding7, ''duration'', ''45'')\<rparr>"]
  by (simp add: mounted_def feeding7_def parseInt_45 FeedingLog_onBlur_def)

end

